theory Spec2Isabelle
  imports Main "HOL-Library.Word"
begin

text \<open>
  A model of the conversion core of \<^verbatim>\<open>src/components/Converter.tsx\<close>: the functions
  \<^verbatim>\<open>parseCSV\<close> and \<^verbatim>\<open>parseJSON\<close>, the CSV serializer inside \<^verbatim>\<open>convertData\<close>, and the handler
  \<^verbatim>\<open>convertData\<close> itself as a function from the state of the component to its next state.
  The definitions come first, in the order of the source; the properties follow.
\<close>

section \<open>JavaScript strings\<close>

text \<open>
  A JavaScript string is a sequence of UTF-16 code units. All the string operations of
  \<^verbatim>\<open>Converter.tsx\<close> (\<^verbatim>\<open>trim\<close>, \<^verbatim>\<open>split\<close>, \<^verbatim>\<open>includes\<close>, \<^verbatim>\<open>replace\<close>, \<^verbatim>\<open>join\<close>)
  work on code units, so a string is a list of 16-bit words. \<open>lit\<close> turns an ASCII
  literal of the source into such a string.
\<close>

type_synonym jschar = "16 word"
type_synonym jsstring = "jschar list"

definition lit :: "string \<Rightarrow> jsstring" where
  "lit s = map of_char s"

abbreviation LF :: jschar where "LF \<equiv> 0x0A"
abbreviation CR :: jschar where "CR \<equiv> 0x0D"
abbreviation comma :: jschar where "comma \<equiv> 0x2C"
abbreviation dquote :: jschar where "dquote \<equiv> 0x22"

text \<open>
  What \<^verbatim>\<open>String.prototype.trim\<close> removes: the code points of WhiteSpace (TAB, VT, FF,
  ZWNBSP and the space separators of Unicode) and of LineTerminator (LF, CR, LS, PS).
\<close>

definition is_space :: "jschar \<Rightarrow> bool" where
  "is_space c \<longleftrightarrow>
     c \<in> set [0x09, 0x0A, 0x0B, 0x0C, 0x0D, 0x20, 0xA0, 0x1680, 0x2028, 0x2029,
               0x202F, 0x205F, 0x3000, 0xFEFF]
     \<or> (0x2000 \<le> c \<and> c \<le> 0x200A)"

definition trim :: "jsstring \<Rightarrow> jsstring" where
  "trim s = rev (dropWhile is_space (rev (dropWhile is_space s)))"

text \<open>
  \<^verbatim>\<open>s.split(',')\<close>: the pieces of \<open>s\<close> between the occurrences of a one-unit separator; the
  empty string gives one empty piece. \<open>cons_first c ps\<close> puts \<open>c\<close> in front of the first
  piece.
\<close>

fun cons_first :: "'a \<Rightarrow> 'a list list \<Rightarrow> 'a list list" where
  "cons_first c [] = [[c]]"
| "cons_first c (p # ps) = (c # p) # ps"

fun split_on :: "jschar \<Rightarrow> jsstring \<Rightarrow> jsstring list" where
  "split_on sep [] = [[]]"
| "split_on sep (c # cs) =
     (if c = sep then [] # split_on sep cs else cons_first c (split_on sep cs))"

text \<open>
  \<^verbatim>\<open>s.split(/\r\n|\n/)\<close>: at each position the regular expression tries CR LF first and
  then LF; a CR that no LF follows stays in its piece.
\<close>

fun split_lines :: "jsstring \<Rightarrow> jsstring list" where
  "split_lines [] = [[]]"
| "split_lines [c] = (if c = LF then [[], []] else [[c]])"
| "split_lines (c # d # ds) =
     (if c = CR \<and> d = LF then [] # split_lines ds
      else if c = LF then [] # split_lines (d # ds)
      else cons_first c (split_lines (d # ds)))"

text \<open>\<^verbatim>\<open>parts.join(sep)\<close> with a one-unit separator.\<close>

fun join :: "jschar \<Rightarrow> jsstring list \<Rightarrow> jsstring" where
  "join sep [] = []"
| "join sep [p] = p"
| "join sep (p # q # ps) = p @ sep # join sep (q # ps)"

text \<open>
  A non-negative integer inside a template literal: its decimal digits (the counts and
  line numbers of the source stay far below \<open>10\<^sup>2\<^sup>1\<close>, where the notation would change).
\<close>

fun decimal :: "nat \<Rightarrow> jsstring" where
  "decimal n =
     (if n < 10 then [0x30 + of_nat n]
      else decimal (n div 10) @ [0x30 + of_nat (n mod 10)])"

section \<open>The records built by \<^verbatim>\<open>parseCSV\<close>\<close>

text \<open>
  \<^verbatim>\<open>parseCSV\<close> builds each record as a plain object, by \<^verbatim>\<open>obj[header] = ...\<close> starting from
  \<^verbatim>\<open>{}\<close>. An object is modelled by its own enumerable properties in the order in which
  \<^verbatim>\<open>Object.keys\<close> and \<^verbatim>\<open>JSON.stringify\<close> visit them: the keys that are array indices (the
  canonical decimal form of an integer below \<open>2\<^sup>3\<^sup>2 - 1\<close>) first, in ascending numeric
  order, then the other keys in the order of their creation.
\<close>

type_synonym csv_record = "(jsstring \<times> jsstring) list"

definition is_digit :: "jschar \<Rightarrow> bool" where
  "is_digit c \<longleftrightarrow> 0x30 \<le> c \<and> c \<le> 0x39"

definition digits_value :: "jsstring \<Rightarrow> nat" where
  "digits_value k = foldl (\<lambda>n c. 10 * n + unat (c - 0x30)) 0 k"

definition array_index :: "jsstring \<Rightarrow> nat option" where
  "array_index k =
     (if k \<noteq> [] \<and> list_all is_digit k \<and> (length k = 1 \<or> hd k \<noteq> 0x30)
         \<and> digits_value k < 2 ^ 32 - 1
      then Some (digits_value k) else None)"

fun insert_index :: "nat \<Rightarrow> jsstring \<times> 'v \<Rightarrow> (jsstring \<times> 'v) list \<Rightarrow> (jsstring \<times> 'v) list" where
  "insert_index n kv [] = [kv]"
| "insert_index n kv ((k, w) # rest) =
     (case array_index k of
        Some m \<Rightarrow> if m < n then (k, w) # insert_index n kv rest else kv # (k, w) # rest
      | None \<Rightarrow> kv # (k, w) # rest)"

text \<open>
  \<^verbatim>\<open>obj[key] = v\<close> on a plain object with a string \<open>v\<close>. The key \<^verbatim>\<open>__proto__\<close> reaches the
  setter inherited from \<^verbatim>\<open>Object.prototype\<close>, which ignores a value that is neither an
  object nor null, so no property is created. A key that exists keeps its place; a new
  key is placed as described above.
\<close>

definition obj_set :: "csv_record \<Rightarrow> jsstring \<Rightarrow> jsstring \<Rightarrow> csv_record" where
  "obj_set obj key v =
     (if key = lit ''__proto__'' then obj
      else if key \<in> fst ` set obj then map (\<lambda>(k, w). if k = key then (k, v) else (k, w)) obj
      else case array_index key of
             Some n \<Rightarrow> insert_index n (key, v) obj
           | None \<Rightarrow> obj @ [(key, v)])"

text \<open>
  \<open>keys_in_order ks\<close> says that the list \<open>ks\<close> is in the order just described, the one in
  which every object lists its keys: an array index follows only a smaller array index.
\<close>

fun keys_in_order :: "jsstring list \<Rightarrow> bool" where
  "keys_in_order [] = True"
| "keys_in_order [k] = True"
| "keys_in_order (k # l # ks) =
     ((case array_index l of
         Some n \<Rightarrow> (case array_index k of Some m \<Rightarrow> m < n | None \<Rightarrow> False)
       | None \<Rightarrow> True)
      \<and> keys_in_order (l # ks))"

section \<open>\<^verbatim>\<open>parseCSV\<close>\<close>

text \<open>
  A thrown \<^verbatim>\<open>Error\<close> is the left injection of a sum, carrying the message.
  \<open>value_or_empty values i\<close> is \<^verbatim>\<open>values[i] || ''\<close>: an index out of range reads
  \<^verbatim>\<open>undefined\<close>, which is falsy as the empty string is.
\<close>

definition value_or_empty :: "jsstring list \<Rightarrow> nat \<Rightarrow> jsstring" where
  "value_or_empty values i = (if i < length values then values ! i else [])"

definition make_record :: "jsstring list \<Rightarrow> jsstring list \<Rightarrow> csv_record" where
  "make_record headers values =
     foldl (\<lambda>obj (header, i). obj_set obj header (value_or_empty values i)) []
       (zip headers [0..<length headers])"

definition row_error :: "nat \<Rightarrow> nat \<Rightarrow> nat \<Rightarrow> jsstring" where
  "row_error line actual expected =
     lit ''Row '' @ decimal line @ lit '' has '' @ decimal actual
       @ lit '' values but should have '' @ decimal expected @ lit '' (matching headers)''"

text \<open>
  \<^verbatim>\<open>lines.slice(1).map((line, index) => ...)\<close>: the rows are visited in order and the first
  row of the wrong width throws.
\<close>

fun parse_rows :: "jsstring list \<Rightarrow> nat \<Rightarrow> jsstring list \<Rightarrow> jsstring + csv_record list" where
  "parse_rows headers index [] = Inr []"
| "parse_rows headers index (line # rest) =
     (let values = map trim (split_on comma line) in
      if length values \<noteq> length headers
      then Inl (row_error (index + 2) (length values) (length headers))
      else case parse_rows headers (index + 1) rest of
             Inl e \<Rightarrow> Inl e
           | Inr records \<Rightarrow> Inr (make_record headers values # records))"

definition parseCSV :: "jsstring \<Rightarrow> jsstring + csv_record list" where
  "parseCSV csv =
     (let lines = split_lines (trim csv) in
      if length lines < 2
      then Inl (lit ''CSV must contain at least a header row and one data row'')
      else
        let headers = map trim (split_on comma (lines ! 0)) in
        if list_ex (\<lambda>h. h = []) headers
        then Inl (lit ''CSV headers cannot be empty'')
        else parse_rows headers 0 (drop 1 lines))"

section \<open>JSON values and the JavaScript runtime\<close>

text \<open>
  The values \<^verbatim>\<open>JSON.parse\<close> returns. A number is a double; its type is left open (\<open>'n\<close>)
  and its rendering belongs to the runtime. An object is the list of its own enumerable
  properties in the order of \<^verbatim>\<open>Object.keys\<close>.
\<close>

datatype 'n json =
    JNull
  | JBool bool
  | JNumber 'n
  | JString jsstring
  | JArray "'n json list"
  | JObject "(jsstring \<times> 'n json) list"

fun typeof :: "'n json \<Rightarrow> string" where
  "typeof JNull = ''object''"
| "typeof (JBool b) = ''boolean''"
| "typeof (JNumber n) = ''number''"
| "typeof (JString s) = ''string''"
| "typeof (JArray xs) = ''object''"
| "typeof (JObject kvs) = ''object''"

fun isArray :: "'n json \<Rightarrow> bool" where
  "isArray (JArray xs) = True"
| "isArray _ = False"

fun elements :: "'n json \<Rightarrow> 'n json list" where
  "elements (JArray xs) = xs"
| "elements _ = []"

text \<open>
  The built-ins of the language that the component calls and whose code is not part of
  the repository are parameters:
  \<^item> \<open>JSON_parse\<close> is \<^verbatim>\<open>JSON.parse(json)\<close>; \<open>Inl m\<close> when it throws a \<^verbatim>\<open>SyntaxError\<close> with
    message \<open>m\<close>;
  \<^item> \<open>JSON_stringify\<close> is \<^verbatim>\<open>JSON.stringify(result, null, 2)\<close> on the records of
    \<^verbatim>\<open>parseCSV\<close>, which never throws;
  \<^item> \<open>ToString\<close> is \<^verbatim>\<open>String(value)\<close> for a number, an array or an object; \<open>Inl m\<close> when
    the conversion throws a \<^verbatim>\<open>TypeError\<close> with message \<open>m\<close> (an object with an own
    property \<^verbatim>\<open>toString\<close>, which JSON cannot make callable);
  \<^item> \<open>builtin_property obj key\<close> answers \<^verbatim>\<open>obj[key]\<close> for a key that is not an own
    enumerable property of \<open>obj\<close>: \<open>None\<close> when the result is \<^verbatim>\<open>undefined\<close>, \<open>Some s\<close> when
    the lookup finds the length of an array or a member of \<^verbatim>\<open>Array.prototype\<close> or
    \<^verbatim>\<open>Object.prototype\<close> (never null), \<open>s\<close> being what \<^verbatim>\<open>String\<close> makes of it.
\<close>

record 'n runtime =
  JSON_parse :: "jsstring \<Rightarrow> jsstring + 'n json"
  JSON_stringify :: "csv_record list \<Rightarrow> jsstring"
  ToString :: "'n json \<Rightarrow> jsstring + jsstring"
  builtin_property :: "'n json \<Rightarrow> jsstring \<Rightarrow> jsstring option"

section \<open>\<^verbatim>\<open>parseJSON\<close>\<close>

definition parseJSON :: "'n runtime \<Rightarrow> jsstring \<Rightarrow> jsstring + 'n json list" where
  "parseJSON rt json =
     (case JSON_parse rt json of
        Inl e \<Rightarrow> Inl e
      | Inr data \<Rightarrow>
          if \<not> isArray data then Inl (lit ''Input must be an array of objects'')
          else if length (elements data) = 0 then Inl (lit ''JSON array cannot be empty'')
          else if \<not> list_all (\<lambda>item. typeof item = ''object'' \<and> item \<noteq> JNull) (elements data)
          then Inl (lit ''All items in the array must be objects'')
          else Inr (elements data))"

section \<open>The CSV serializer of \<^verbatim>\<open>convertData\<close>\<close>

text \<open>
  \<^verbatim>\<open>Object.keys(obj)\<close> for the values that pass \<^verbatim>\<open>parseJSON\<close>: the keys of an object, the
  indices of an array. (No other value reaches the serializer.)
\<close>

fun Object_keys :: "'n json \<Rightarrow> jsstring list" where
  "Object_keys (JObject kvs) = map fst kvs"
| "Object_keys (JArray xs) = map decimal [0..<length xs]"
| "Object_keys _ = []"

text \<open>
  \<^verbatim>\<open>Array.from(new Set(keys))\<close>: a \<^verbatim>\<open>Set\<close> keeps its elements in the order of their first
  insertion.
\<close>

definition Set_from :: "'a list \<Rightarrow> 'a list" where
  "Set_from xs = foldl (\<lambda>seen x. if x \<in> set seen then seen else seen @ [x]) [] xs"

text \<open>\<^verbatim>\<open>obj[header]\<close>: an own property first, then what the runtime finds.\<close>

datatype 'n property = Undefined | Value "'n json" | Builtin jsstring

fun own_property :: "'n json \<Rightarrow> jsstring \<Rightarrow> 'n json option" where
  "own_property (JObject kvs) key = map_of kvs key"
| "own_property (JArray xs) key =
     (case array_index key of
        Some i \<Rightarrow> if i < length xs then Some (xs ! i) else None
      | None \<Rightarrow> None)"
| "own_property _ key = None"

definition get_property :: "'n runtime \<Rightarrow> 'n json \<Rightarrow> jsstring \<Rightarrow> 'n property" where
  "get_property rt obj key =
     (case own_property obj key of
        Some v \<Rightarrow> Value v
      | None \<Rightarrow> (case builtin_property rt obj key of Some s \<Rightarrow> Builtin s | None \<Rightarrow> Undefined))"

text \<open>\<^verbatim>\<open>String(value)\<close>.\<close>

fun String_js :: "'n runtime \<Rightarrow> 'n json \<Rightarrow> jsstring + jsstring" where
  "String_js rt (JString s) = Inr s"
| "String_js rt (JBool b) = Inr (if b then lit ''true'' else lit ''false'')"
| "String_js rt JNull = Inr (lit ''null'')"
| "String_js rt v = ToString rt v"

text \<open>
  Lines 77 to 79: \<^verbatim>\<open>stringValue.includes(...)\<close> and \<^verbatim>\<open>stringValue.replace(/"/g, '""')\<close>.
\<close>

definition includes_js :: "jsstring \<Rightarrow> jschar \<Rightarrow> bool" where
  "includes_js s c \<longleftrightarrow> c \<in> set s"

definition double_quotes :: "jsstring \<Rightarrow> jsstring" where
  "double_quotes s = concat (map (\<lambda>c. if c = dquote then [dquote, dquote] else [c]) s)"

definition escape :: "jsstring \<Rightarrow> jsstring" where
  "escape stringValue =
     (if includes_js stringValue comma \<or> includes_js stringValue dquote \<or> includes_js stringValue LF
      then dquote # double_quotes stringValue @ [dquote]
      else stringValue)"

text \<open>Lines 72 to 80: the field of one record under one header.\<close>

definition csv_field :: "'n runtime \<Rightarrow> 'n json \<Rightarrow> jsstring \<Rightarrow> jsstring + jsstring" where
  "csv_field rt obj header =
     (case get_property rt obj header of
        Undefined \<Rightarrow> Inr []
      | Value v \<Rightarrow>
          if v = JNull then Inr []
          else (case String_js rt v of Inl e \<Rightarrow> Inl e | Inr stringValue \<Rightarrow> Inr (escape stringValue))
      | Builtin stringValue \<Rightarrow> Inr (escape stringValue))"

text \<open>\<^verbatim>\<open>xs.map(f)\<close> where \<open>f\<close> may throw: the first exception ends the traversal.\<close>

fun map_throw :: "('a \<Rightarrow> 'e + 'b) \<Rightarrow> 'a list \<Rightarrow> 'e + 'b list" where
  "map_throw f [] = Inr []"
| "map_throw f (x # xs) =
     (case f x of
        Inl e \<Rightarrow> Inl e
      | Inr y \<Rightarrow> (case map_throw f xs of Inl e \<Rightarrow> Inl e | Inr ys \<Rightarrow> Inr (y # ys)))"

definition csv_row :: "'n runtime \<Rightarrow> jsstring list \<Rightarrow> 'n json \<Rightarrow> jsstring + jsstring" where
  "csv_row rt headers obj =
     (case map_throw (csv_field rt obj) headers of
        Inl e \<Rightarrow> Inl e
      | Inr cells \<Rightarrow> Inr (join comma cells))"

definition csv_headers :: "'n json list \<Rightarrow> jsstring list" where
  "csv_headers jsonData = Set_from (concat (map Object_keys jsonData))"

text \<open>Lines 68 to 82, from the validated \<^verbatim>\<open>jsonData\<close> to the text \<^verbatim>\<open>csv\<close>.\<close>

definition serializeCSV :: "'n runtime \<Rightarrow> 'n json list \<Rightarrow> jsstring + jsstring" where
  "serializeCSV rt jsonData =
     (let headers = csv_headers jsonData in
      case map_throw (csv_row rt headers) jsonData of
        Inl e \<Rightarrow> Inl e
      | Inr rows \<Rightarrow> Inr (join LF (join comma headers # rows)))"

section \<open>\<^verbatim>\<open>convertData\<close>\<close>

text \<open>
  The state of the component: the values of its \<^verbatim>\<open>useState\<close> hooks (\<^verbatim>\<open>input\<close>, \<^verbatim>\<open>output\<close>,
  \<^verbatim>\<open>error\<close>, \<^verbatim>\<open>mode\<close>, \<^verbatim>\<open>copied\<close>), each field with the suffix \<open>_st\<close>. \<open>convert\<close> is the body of
  the \<^verbatim>\<open>try\<close> block; \<open>convertData\<close> is the handler: \<^verbatim>\<open>setError(null)\<close>, the early return on a
  blank input, and the updates of the \<^verbatim>\<open>try\<close> and \<^verbatim>\<open>catch\<close> blocks.
\<close>

datatype mode = csv2json | json2csv

record ConversionError =
  message :: jsstring
  details :: "jsstring option"

record state =
  input_st :: jsstring
  output_st :: jsstring
  error_st :: "ConversionError option"
  mode_st :: mode
  copied_st :: bool

definition convert :: "'n runtime \<Rightarrow> mode \<Rightarrow> jsstring \<Rightarrow> jsstring + jsstring" where
  "convert rt m inputText =
     (if m = csv2json
      then (case parseCSV inputText of
              Inl e \<Rightarrow> Inl e
            | Inr result \<Rightarrow> Inr (JSON_stringify rt result))
      else (case parseJSON rt inputText of
              Inl e \<Rightarrow> Inl e
            | Inr jsonData \<Rightarrow> serializeCSV rt jsonData))"

definition convertData :: "'n runtime \<Rightarrow> state \<Rightarrow> state" where
  "convertData rt s =
     (let s1 = s\<lparr>error_st := None\<rparr> in
      if trim (input_st s) = []
      then s1\<lparr>error_st :=
                Some \<lparr>message = lit ''Please enter some data to convert'', details = None\<rparr>\<rparr>
      else
        case convert rt (mode_st s) (input_st s) of
          Inr out \<Rightarrow> s1\<lparr>output_st := out\<rparr>
        | Inl m \<Rightarrow>
            s1\<lparr>error_st := Some \<lparr>message = lit ''Conversion failed'', details = Some m\<rparr>,
               output_st := []\<rparr>)"

text \<open>
  The \<^verbatim>\<open>onChange\<close> handler of the input area (lines 168 to 171): \<^verbatim>\<open>setInput(e.target.value)\<close> and
  \<^verbatim>\<open>setError(null)\<close>.
\<close>

definition onChange :: "jsstring \<Rightarrow> state \<Rightarrow> state" where
  "onChange v s = s\<lparr>input_st := v, error_st := None\<rparr>"

section \<open>A runtime for the examples\<close>

text \<open>
  The examples below need a concrete runtime. In \<open>sample_runtime\<close> a number is a natural
  number, \<^verbatim>\<open>JSON.parse\<close> knows the texts of a table, \<^verbatim>\<open>JSON.stringify\<close> is right for keys
  and values that need no escape, \<^verbatim>\<open>String\<close> is right for numbers, arrays of numbers and
  objects, and the built-in properties are the length of an array and \<^verbatim>\<open>toString\<close>.
\<close>

definition join_str :: "jsstring \<Rightarrow> jsstring list \<Rightarrow> jsstring" where
  "join_str sep ps = (case ps of [] \<Rightarrow> [] | p # qs \<Rightarrow> p @ concat (map (\<lambda>q. sep @ q) qs))"

definition sample_stringify :: "csv_record list \<Rightarrow> jsstring" where
  "sample_stringify result =
     (let quote = (\<lambda>s. dquote # s @ [dquote]);
          member = (\<lambda>(k, v). lit ''    '' @ quote k @ lit '': '' @ quote v);
          object = (\<lambda>r. if r = [] then lit ''{}''
                        else lit ''{\<newline>'' @ join_str (lit '',\<newline>'') (map member r) @ lit ''\<newline>  }'')
      in if result = [] then lit ''[]''
         else lit ''[\<newline>  '' @ join_str (lit '',\<newline>  '') (map object result) @ lit ''\<newline>]'')"

definition sample_String :: "nat json \<Rightarrow> jsstring + jsstring" where
  "sample_String v =
     (case v of
        JNumber n \<Rightarrow> Inr (decimal n)
      | JArray xs \<Rightarrow> Inr (join comma (map (\<lambda>x. case x of JNumber n \<Rightarrow> decimal n | _ \<Rightarrow> []) xs))
      | JObject kvs \<Rightarrow>
          if lit ''toString'' \<in> fst ` set kvs
          then Inl (lit ''Cannot convert object to primitive value'')
          else Inr (lit ''[object Object]'')
      | _ \<Rightarrow> Inr [])"

definition sample_builtin :: "nat json \<Rightarrow> jsstring \<Rightarrow> jsstring option" where
  "sample_builtin obj key =
     (if key = lit ''length'' \<and> isArray obj then Some (decimal (length (elements obj)))
      else if key = lit ''toString'' then Some (lit ''function toString() { [native code] }'')
      else None)"

definition sample_runtime :: "(jsstring \<times> nat json) list \<Rightarrow> nat runtime" where
  "sample_runtime table =
     \<lparr>JSON_parse = (\<lambda>json. case map_of table json of
                              Some data \<Rightarrow> Inr data
                            | None \<Rightarrow> Inl (lit ''Unexpected end of JSON input'')),
      JSON_stringify = sample_stringify,
      ToString = sample_String,
      builtin_property = sample_builtin\<rparr>"

definition sample_table :: "(jsstring \<times> nat json) list" where
  "sample_table =
     [(lit ''{\"a\":1}'', JObject [(lit ''a'', JNumber 1)]),
      (lit ''[]'', JArray []),
      (lit ''[{\"a\":1},null]'', JArray [JObject [(lit ''a'', JNumber 1)], JNull]),
      (lit ''[{\"a\":1}]'', JArray [JObject [(lit ''a'', JNumber 1)]]),
      (lit ''[[1,2]]'', JArray [JArray [JNumber 1, JNumber 2]])]"

section \<open>Splitting, joining and trimming\<close>

text \<open>
  What \<^verbatim>\<open>split\<close> gives back from a \<^verbatim>\<open>join\<close>, and when \<^verbatim>\<open>trim\<close> leaves a string as it is.
\<close>

lemma split_on_plain: "sep \<notin> set p \<Longrightarrow> split_on sep p = [p]"
  by (induction p) auto

lemma split_on_piece:
  "sep \<notin> set p \<Longrightarrow> split_on sep (p @ sep # rest) = p # split_on sep rest"
  by (induction p) auto

lemma split_on_join:
  "ps \<noteq> [] \<Longrightarrow> \<forall>p\<in>set ps. sep \<notin> set p \<Longrightarrow> split_on sep (join sep ps) = ps"
proof (induction sep ps rule: join.induct)
  case (1 sep)
  then show ?case by simp
next
  case (2 sep p)
  then show ?case by (simp add: split_on_plain)
next
  case (3 sep p q ps)
  then show ?case by (simp add: split_on_piece)
qed

lemma split_lines_plain: "LF \<notin> set p \<Longrightarrow> split_lines p = [p]"
  by (induction p rule: split_lines.induct) auto

lemma split_lines_LF: "split_lines (LF # rest) = [] # split_lines rest"
  by (cases rest) simp_all

lemma split_lines_piece:
  "LF \<notin> set p \<Longrightarrow> p = [] \<or> last p \<noteq> CR \<Longrightarrow>
   split_lines (p @ LF # rest) = p # split_lines rest"
proof (induction p rule: split_lines.induct)
  case 1
  then show ?case by (simp add: split_lines_LF)
next
  case (2 c)
  then show ?case by (simp add: split_lines_LF)
next
  case (3 c d ds)
  then show ?case by simp
qed

lemma split_lines_join:
  "ps \<noteq> [] \<Longrightarrow> \<forall>p\<in>set ps. LF \<notin> set p \<and> (p = [] \<or> last p \<noteq> CR) \<Longrightarrow>
   split_lines (join LF ps) = ps"
proof (induction LF ps rule: join.induct)
  case 1
  then show ?case by simp
next
  case (2 p)
  then show ?case by (simp add: split_lines_plain)
next
  case (3 p q ps)
  then show ?case by (simp add: split_lines_piece)
qed

lemma trim_blank: "list_all is_space s \<Longrightarrow> trim s = []"
proof -
  assume "list_all is_space s"
  then have blank: "dropWhile is_space s = []"
    by (simp add: list_all_iff)
  show ?thesis
    unfolding trim_def blank by simp
qed

lemma trim_tidy:
  assumes "s \<noteq> []" and "\<not> is_space (hd s)" and "\<not> is_space (last s)"
  shows "trim s = s"
proof -
  from assms(1,2) have front: "dropWhile is_space s = s"
    by (cases s) simp_all
  from assms(1,3) have "dropWhile is_space (rev s) = rev s"
    by (cases "rev s") (simp_all add: last_rev [symmetric] hd_rev)
  with front show ?thesis
    by (simp add: trim_def)
qed

lemma dropWhile_same_length:
  assumes "length (dropWhile P xs) = length xs"
  shows "dropWhile P xs = xs"
proof (cases xs)
  case Nil
  then show ?thesis by simp
next
  case (Cons x rest)
  have "length (dropWhile P rest) \<le> length rest"
    by (rule length_dropWhile_le)
  with assms Cons have "\<not> P x"
    by auto
  with Cons show ?thesis by simp
qed

lemma tidy_trim:
  assumes "trim s = s" and "s \<noteq> []"
  shows "\<not> is_space (hd s) \<and> \<not> is_space (last s)"
proof -
  let ?t = "dropWhile is_space s"
  have "length (dropWhile is_space (rev ?t)) \<le> length (rev ?t)"
    by (rule length_dropWhile_le)
  then have "length (trim s) \<le> length ?t"
    by (simp add: trim_def)
  moreover have "length ?t \<le> length s"
    by (rule length_dropWhile_le)
  ultimately have "length ?t = length s"
    using assms(1) by simp
  then have front: "?t = s"
    by (rule dropWhile_same_length)
  with assms(2) hd_dropWhile [of is_space s] have first: "\<not> is_space (hd s)"
    by simp
  from assms(1) front have "rev (dropWhile is_space (rev s)) = s"
    by (simp add: trim_def)
  then have "dropWhile is_space (rev s) = rev s"
    by (simp add: rev_swap)
  with assms(2) hd_dropWhile [of is_space "rev s"] have "\<not> is_space (hd (rev s))"
    by simp
  with assms(2) first show ?thesis
    by (simp add: hd_rev)
qed

lemma join_Nil_iff: "join sep ps = [] \<longleftrightarrow> ps = [] \<or> ps = [[]]"
  by (induction sep ps rule: join.induct) auto

lemma join_last:
  "ps \<noteq> [] \<Longrightarrow> last ps \<noteq> [] \<Longrightarrow> last (join sep ps) = last (last ps)"
  by (induction sep ps rule: join.induct) (auto simp: join_Nil_iff)

lemma join_last_cases:
  "join sep ps = [] \<or> last (join sep ps) = sep
   \<or> (\<exists>p\<in>set ps. p \<noteq> [] \<and> last (join sep ps) = last p)"
  by (induction sep ps rule: join.induct) (auto simp: join_Nil_iff)

lemma join_hd: "p \<noteq> [] \<Longrightarrow> hd (join sep (p # ps)) = hd p"
  by (cases ps) simp_all

lemma set_join: "set (join sep ps) \<subseteq> insert sep (\<Union>p\<in>set ps. set p)"
  by (induction sep ps rule: join.induct) auto

lemma comma_not_space: "\<not> is_space comma"
  by (simp add: is_space_def)

lemma space_CR: "is_space CR"
  by (simp add: is_space_def)

lemma joined_row:
  assumes "\<forall>s\<in>set cells. trim s = s \<and> LF \<notin> set s"
  shows "LF \<notin> set (join comma cells)
     \<and> (join comma cells = [] \<or> \<not> is_space (last (join comma cells)))"
proof
  from set_join [of comma cells] assms show "LF \<notin> set (join comma cells)"
    by auto
  from join_last_cases [of comma cells]
  show "join comma cells = [] \<or> \<not> is_space (last (join comma cells))"
  proof (elim disjE bexE conjE)
    assume "join comma cells = []"
    then show ?thesis by simp
  next
    assume "last (join comma cells) = comma"
    then show ?thesis by (simp add: comma_not_space)
  next
    fix p
    assume p: "p \<in> set cells" "p \<noteq> []" "last (join comma cells) = last p"
    with assms have "trim p = p" by simp
    with p(2) have "\<not> is_space (last p)" by (simp add: tidy_trim)
    with p(3) show ?thesis by simp
  qed
qed

section \<open>Lists without repetition\<close>

text \<open>
  \<open>Set_from\<close> keeps the first occurrence of each element, in order.
\<close>

lemma seen_set:
  "set (foldl (\<lambda>seen x. if x \<in> set seen then seen else seen @ [x]) seen xs) = set seen \<union> set xs"
  by (induction xs arbitrary: seen) auto

lemma seen_distinct:
  "distinct seen \<Longrightarrow>
   distinct (foldl (\<lambda>seen x. if x \<in> set seen then seen else seen @ [x]) seen xs)"
  by (induction xs arbitrary: seen) auto

lemma seen_split:
  "foldl (\<lambda>seen x. if x \<in> set seen then seen else seen @ [x]) seen xs
     = seen @ filter (\<lambda>x. x \<notin> set seen)
                (foldl (\<lambda>seen x. if x \<in> set seen then seen else seen @ [x]) [] xs)"
proof (induction xs arbitrary: seen)
  case Nil
  then show ?case by simp
next
  case (Cons a xs)
  let ?f = "\<lambda>seen x. if x \<in> set seen then seen else seen @ [x]"
  have single: "foldl ?f [a] xs = [a] @ filter (\<lambda>x. x \<notin> set [a]) (foldl ?f [] xs)"
    by (rule Cons.IH)
  show ?case
  proof (cases "a \<in> set seen")
    case True
    have "filter (\<lambda>x. x \<notin> set seen) (foldl ?f [] xs)
            = filter (\<lambda>x. x \<notin> set seen) (filter (\<lambda>x. x \<notin> set [a]) (foldl ?f [] xs))"
      using True by (auto intro: filter_cong)
    with True show ?thesis
      using Cons.IH [of seen] single by simp
  next
    case False
    have "filter (\<lambda>x. x \<notin> set (seen @ [a])) (foldl ?f [] xs)
            = filter (\<lambda>x. x \<notin> set seen) (filter (\<lambda>x. x \<notin> set [a]) (foldl ?f [] xs))"
      by (auto intro: filter_cong)
    with False show ?thesis
      using Cons.IH [of "seen @ [a]"] single by simp
  qed
qed

lemma Set_from_set: "set (Set_from xs) = set xs"
  by (simp add: Set_from_def seen_set)

lemma Set_from_distinct: "distinct (Set_from xs)"
  by (simp add: Set_from_def seen_distinct)

lemma Set_from_append:
  "Set_from (xs @ ys) = Set_from xs @ filter (\<lambda>y. y \<notin> set xs) (Set_from ys)"
proof -
  have "Set_from (xs @ ys)
          = foldl (\<lambda>seen x. if x \<in> set seen then seen else seen @ [x]) (Set_from xs) ys"
    by (simp add: Set_from_def)
  also have "\<dots> = Set_from xs @ filter (\<lambda>y. y \<notin> set (Set_from xs)) (Set_from ys)"
    unfolding Set_from_def [of ys] by (rule seen_split)
  finally show ?thesis
    by (simp add: Set_from_set)
qed

lemma Set_from_Cons:
  "Set_from (x # xs) = x # filter (\<lambda>y. y \<noteq> x) (Set_from xs)"
  using Set_from_append [of "[x]" xs] by (simp add: Set_from_def)

lemma Set_from_id: "distinct xs \<Longrightarrow> Set_from xs = xs"
proof (induction xs)
  case Nil
  then show ?case by (simp add: Set_from_def)
next
  case (Cons x xs)
  then have "filter (\<lambda>y. y \<noteq> x) xs = xs"
    by (auto intro: filter_True)
  with Cons show ?case
    by (simp add: Set_from_Cons)
qed

section \<open>Properties of \<^verbatim>\<open>parseCSV\<close>\<close>

lemma parse_rows_ok:
  "\<forall>row\<in>set rows. length (split_on comma row) = length headers \<Longrightarrow>
   parse_rows headers index rows
     = Inr (map (\<lambda>row. make_record headers (map trim (split_on comma row))) rows)"
  by (induction rows arbitrary: index) (simp_all add: Let_def)

lemma parse_rows_first_bad:
  "k < length rows \<Longrightarrow> length (split_on comma (rows ! k)) \<noteq> length headers \<Longrightarrow>
   \<forall>j<k. length (split_on comma (rows ! j)) = length headers \<Longrightarrow>
   parse_rows headers index rows
     = Inl (row_error (index + k + 2) (length (split_on comma (rows ! k))) (length headers))"
proof (induction rows arbitrary: index k)
  case Nil
  then show ?case by simp
next
  case (Cons row rest)
  show ?case
  proof (cases k)
    case 0
    with Cons.prems show ?thesis by (simp add: Let_def)
  next
    case (Suc k')
    from Cons.prems(3) Suc have row_ok: "length (split_on comma row) = length headers"
      by auto
    from Cons.prems Suc have
      "parse_rows headers (index + 1) rest
         = Inl (row_error (index + 1 + k' + 2) (length (split_on comma (rest ! k'))) (length headers))"
      by (intro Cons.IH) auto
    with row_ok Suc show ?thesis by (simp add: Let_def)
  qed
qed

lemma parseCSV_rows:
  assumes "split_lines (trim csv) = header_line # rows"
    and "rows \<noteq> []"
    and "\<forall>h\<in>set (map trim (split_on comma header_line)). h \<noteq> []"
  shows "parseCSV csv = parse_rows (map trim (split_on comma header_line)) 0 rows"
proof -
  from assms(2) have two: "\<not> length (header_line # rows) < 2"
    by (cases rows) simp_all
  from assms(3) have filled: "\<not> list_ex (\<lambda>h. h = []) (map trim (split_on comma header_line))"
    unfolding list_ex_iff by blast
  have first: "(header_line # rows) ! 0 = header_line" and others: "drop 1 (header_line # rows) = rows"
    by simp_all
  show ?thesis
    unfolding parseCSV_def assms(1) Let_def first others
    using two filled by (simp only: if_False)
qed

lemma set_insert_index: "set (insert_index n kv obj) = insert kv (set obj)"
proof (induction obj)
  case Nil
  then show ?case by simp
next
  case (Cons a obj)
  obtain k w where a: "a = (k, w)" by (cases a)
  show ?case
  proof (cases "array_index k")
    case None
    then show ?thesis by (simp add: a)
  next
    case (Some m)
    with Cons.IH show ?thesis by (simp add: a insert_commute)
  qed
qed

lemma obj_set_keys:
  "fst ` set (obj_set obj key v)
     = (if key = lit ''__proto__'' then fst ` set obj else insert key (fst ` set obj))"
proof -
  have "fst ` set (map (\<lambda>(k, w). if k = key then (k, v) else (k, w)) obj) = fst ` set obj"
    by (induction obj) auto
  then show ?thesis
    by (auto simp: obj_set_def set_insert_index split: option.splits)
qed

lemma foldl_obj_set_keys:
  "fst ` set (foldl (\<lambda>obj (header, i). obj_set obj header (g i)) acc zs)
     = fst ` set acc \<union> (fst ` set zs - {lit ''__proto__''})"
proof (induction zs arbitrary: acc)
  case Nil
  then show ?case by simp
next
  case (Cons z zs)
  obtain h i where z: "z = (h, i)" by (cases z)
  show ?case
    unfolding z by (simp add: Cons.IH obj_set_keys) auto
qed

lemma make_record_keys:
  "fst ` set (make_record headers values) = set headers - {lit ''__proto__''}"
proof -
  have "fst ` set (zip headers [0..<length headers]) = set headers"
    by (metis length_upt map_fst_zip minus_nat.diff_0 set_map)
  then show ?thesis
    by (simp add: make_record_def foldl_obj_set_keys)
qed

lemma keys_in_order_plain: "\<forall>k\<in>set ks. array_index k = None \<Longrightarrow> keys_in_order ks"
  by (induction ks rule: keys_in_order.induct) simp_all

lemma keys_in_order_before:
  "keys_in_order (xs @ h # ys) \<Longrightarrow> array_index h = Some n \<Longrightarrow>
   \<forall>k\<in>set xs. \<exists>m. array_index k = Some m \<and> m < n"
proof (induction xs arbitrary: h n)
  case Nil
  then show ?case by simp
next
  case (Cons x xs)
  show ?case
  proof (cases xs)
    case Nil
    with Cons.prems show ?thesis
      by (auto split: option.splits)
  next
    case (Cons y rest)
    with Cons.prems(1) have tail: "keys_in_order (xs @ h # ys)"
      by simp
    from Cons.IH [OF tail Cons.prems(2)]
    have below: "\<forall>k\<in>set xs. \<exists>m. array_index k = Some m \<and> m < n" .
    with Cons obtain j where j: "array_index y = Some j" "j < n"
      by auto
    from Cons.prems(1) Cons j(1) obtain i where "array_index x = Some i" "i < j"
      by (auto split: option.splits)
    with j(2) below show ?thesis
      by auto
  qed
qed

lemma insert_index_append:
  "\<forall>k\<in>fst ` set obj. \<exists>m. array_index k = Some m \<and> m < n \<Longrightarrow>
   insert_index n kv obj = obj @ [kv]"
proof (induction obj)
  case Nil
  then show ?case by simp
next
  case (Cons a obj)
  obtain k w where a: "a = (k, w)" by (cases a)
  with Cons.prems obtain m where "array_index k = Some m" "m < n"
    by auto
  moreover from Cons have "insert_index n kv obj = obj @ [kv]"
    by simp
  ultimately show ?case
    by (simp add: a)
qed

lemma obj_set_new:
  assumes "key \<noteq> lit ''__proto__''" and "key \<notin> fst ` set obj"
    and "keys_in_order (map fst obj @ key # later)"
  shows "obj_set obj key v = obj @ [(key, v)]"
proof (cases "array_index key")
  case None
  with assms(1,2) show ?thesis
    by (simp add: obj_set_def)
next
  case (Some n)
  from keys_in_order_before [OF assms(3) Some]
  have "\<forall>k\<in>fst ` set obj. \<exists>m. array_index k = Some m \<and> m < n"
    by simp
  then have "insert_index n (key, v) obj = obj @ [(key, v)]"
    by (rule insert_index_append)
  with assms(1,2) Some show ?thesis
    by (simp add: obj_set_def)
qed

lemma obj_set_old:
  assumes "key \<in> fst ` set obj"
  shows "map fst (obj_set obj key v) = map fst obj"
proof -
  have "map fst (map (\<lambda>(k, w). if k = key then (k, v) else (k, w)) obj) = map fst obj"
    by (induction obj) auto
  with assms show ?thesis
    by (simp add: obj_set_def)
qed

lemma foldl_obj_set_append:
  "distinct (map fst acc @ map fst zs) \<Longrightarrow> keys_in_order (map fst acc @ map fst zs) \<Longrightarrow>
   lit ''__proto__'' \<notin> fst ` set zs \<Longrightarrow>
   foldl (\<lambda>obj (header, i). obj_set obj header (g i)) acc zs
     = acc @ map (\<lambda>(header, i). (header, g i)) zs"
proof (induction zs arbitrary: acc)
  case Nil
  then show ?case by simp
next
  case (Cons z zs)
  obtain h i where z: "z = (h, i)" by (cases z)
  from Cons.prems z have step: "obj_set acc h (g i) = acc @ [(h, g i)]"
    by (intro obj_set_new [where later = "map fst zs"]) auto
  have "foldl (\<lambda>obj (header, i). obj_set obj header (g i)) (acc @ [(h, g i)]) zs
          = (acc @ [(h, g i)]) @ map (\<lambda>(header, i). (header, g i)) zs"
    using Cons.prems z by (intro Cons.IH) auto
  with step z show ?case by simp
qed

lemma foldl_obj_set_key_list:
  "lit ''__proto__'' \<notin> fst ` set zs \<Longrightarrow>
   keys_in_order (foldl (\<lambda>seen x. if x \<in> set seen then seen else seen @ [x])
                    (map fst acc) (map fst zs)) \<Longrightarrow>
   map fst (foldl (\<lambda>obj (header, i). obj_set obj header (g i)) acc zs)
     = foldl (\<lambda>seen x. if x \<in> set seen then seen else seen @ [x]) (map fst acc) (map fst zs)"
proof (induction zs arbitrary: acc)
  case Nil
  then show ?case by simp
next
  case (Cons z zs)
  let ?F = "\<lambda>seen x. if x \<in> set seen then seen else seen @ [x]"
  obtain h i where z: "z = (h, i)" by (cases z)
  show ?case
  proof (cases "h \<in> fst ` set acc")
    case True
    then have same: "map fst (obj_set acc h (g i)) = map fst acc"
      by (rule obj_set_old)
    from True have "?F (map fst acc) h = map fst acc"
      by simp
    with Cons.prems z same
    have "map fst (foldl (\<lambda>obj (header, i). obj_set obj header (g i)) (obj_set acc h (g i)) zs)
            = foldl ?F (map fst (obj_set acc h (g i))) (map fst zs)"
      by (intro Cons.IH) auto
    with True z same show ?thesis
      by simp
  next
    case False
    then have next_seen: "?F (map fst acc) h = map fst acc @ [h]"
      by simp
    from Cons.prems(2) z next_seen
    have ordered: "keys_in_order (foldl ?F (map fst acc @ [h]) (map fst zs))"
      by simp
    define later where
      "later = filter (\<lambda>x. x \<notin> set (map fst acc @ [h])) (foldl ?F [] (map fst zs))"
    have "foldl ?F (map fst acc @ [h]) (map fst zs) = (map fst acc @ [h]) @ later"
      unfolding later_def by (rule seen_split)
    with ordered have "keys_in_order ((map fst acc @ [h]) @ later)"
      by (simp only:)
    then have "keys_in_order (map fst acc @ h # later)"
      by simp
    with Cons.prems(1) z False have step: "obj_set acc h (g i) = acc @ [(h, g i)]"
      by (intro obj_set_new) auto
    have "map fst (foldl (\<lambda>obj (header, i). obj_set obj header (g i)) (acc @ [(h, g i)]) zs)
            = foldl ?F (map fst (acc @ [(h, g i)])) (map fst zs)"
      using Cons.prems(1) z ordered by (intro Cons.IH) auto
    with step z False show ?thesis
      by simp
  qed
qed

lemma make_record_key_list:
  assumes "lit ''__proto__'' \<notin> set headers" and "keys_in_order (Set_from headers)"
  shows "map fst (make_record headers values) = Set_from headers"
proof -
  let ?zs = "zip headers [0..<length headers]"
  have fst_zs: "map fst ?zs = headers"
    by (simp add: map_fst_zip)
  then have "fst ` set ?zs = set headers"
    by (metis set_map)
  with assms fst_zs show ?thesis
    unfolding make_record_def Set_from_def
    using foldl_obj_set_key_list [of ?zs "[]" "value_or_empty values"] by simp
qed

lemma make_record_zip:
  assumes "distinct headers"
    and "lit ''__proto__'' \<notin> set headers"
    and "keys_in_order headers"
    and "length values = length headers"
  shows "make_record headers values = zip headers values"
proof -
  let ?zs = "zip headers [0..<length headers]"
  have fst_zs: "map fst ?zs = headers"
    by (simp add: map_fst_zip)
  then have set_zs: "fst ` set ?zs = set headers"
    by (metis set_map)
  have "make_record headers values = map (\<lambda>(header, i). (header, value_or_empty values i)) ?zs"
    unfolding make_record_def
    using foldl_obj_set_append [of "[]" ?zs "value_or_empty values"] assms(1,2,3) fst_zs set_zs
    by simp
  also have "\<dots> = zip headers values"
    using assms(4) by (intro nth_equalityI) (simp_all add: value_or_empty_def)
  finally show ?thesis .
qed

text \<open>
  C5: an input that, once trimmed and split at its line ends, has fewer than two lines
  makes \<^verbatim>\<open>parseCSV\<close> throw "CSV must contain at least a header row and one data row".
\<close>

theorem parseCSV_too_short:
  assumes "length (split_lines (trim csv)) < 2"
  shows "parseCSV csv = Inl (lit ''CSV must contain at least a header row and one data row'')"
  using assms by (simp add: parseCSV_def)

theorem parseCSV_too_short_witness:
  "length (split_lines (trim (lit '' name,age ''))) < 2
   \<and> parseCSV (lit '' name,age '')
       = Inl (lit ''CSV must contain at least a header row and one data row'')"
proof -
  have short: "length (split_lines (trim (lit '' name,age ''))) < 2"
    by (simp add: lit_def trim_def is_space_def)
  show ?thesis
    using short parseCSV_too_short [OF short] by simp
qed

text \<open>
  C4, amended: let the trimmed input have a header line whose fields are all non-empty
  once trimmed. If data row \<open>k + 1\<close> (the row at index \<open>k\<close> after the header) is the first
  whose number of values differs from the number of headers, \<^verbatim>\<open>parseCSV\<close> throws
  "Row \<open>k + 2\<close> has \<open>actual\<close> values but should have \<open>expected\<close> (matching headers)": the
  header is line 1, and lines are counted in the trimmed input.
\<close>

theorem parseCSV_row_width:
  assumes "split_lines (trim csv) = header_line # rows"
    and "headers = map trim (split_on comma header_line)"
    and "\<forall>h\<in>set headers. h \<noteq> []"
    and "k < length rows"
    and "length (split_on comma (rows ! k)) \<noteq> length headers"
    and "\<forall>j<k. length (split_on comma (rows ! j)) = length headers"
  shows "parseCSV csv
     = Inl (lit ''Row '' @ decimal (k + 2) @ lit '' has ''
              @ decimal (length (split_on comma (rows ! k)))
              @ lit '' values but should have '' @ decimal (length headers)
              @ lit '' (matching headers)'')"
proof -
  from assms(4) have "rows \<noteq> []" by auto
  with assms(1,2,3) have "parseCSV csv = parse_rows headers 0 rows"
    by (simp add: parseCSV_rows)
  also have "\<dots> = Inl (row_error (0 + k + 2) (length (split_on comma (rows ! k))) (length headers))"
    using assms(4,5,6) by (rule parse_rows_first_bad)
  finally show ?thesis
    by (simp add: row_error_def)
qed

theorem parseCSV_row_width_witness:
  "parseCSV (lit ''a,b\<newline>1,2\<newline>3\<newline>4'')
     = Inl (lit ''Row 3 has 1 values but should have 2 (matching headers)'')"
proof -
  have lines: "split_lines (trim (lit ''a,b\<newline>1,2\<newline>3\<newline>4''))
                 = lit ''a,b'' # [lit ''1,2'', lit ''3'', lit ''4'']"
    by (simp add: lit_def trim_def is_space_def)
  have headers: "[lit ''a'', lit ''b''] = map trim (split_on comma (lit ''a,b''))"
    by (simp add: lit_def trim_def is_space_def)
  have filled: "\<forall>h\<in>set [lit ''a'', lit ''b'']. h \<noteq> []"
    by (simp add: lit_def)
  have k: "(1::nat) < length [lit ''1,2'', lit ''3'', lit ''4'']"
    by simp
  have bad: "length (split_on comma ([lit ''1,2'', lit ''3'', lit ''4''] ! 1))
               \<noteq> length [lit ''a'', lit ''b'']"
    by (simp add: lit_def)
  have before: "\<forall>j<1. length (split_on comma ([lit ''1,2'', lit ''3'', lit ''4''] ! j))
                  = length [lit ''a'', lit ''b'']"
    by (simp add: lit_def)
  show ?thesis
    using parseCSV_row_width [OF lines headers filled k bad before]
    by (simp add: lit_def)
qed

text \<open>
  C4 as stated fails when a header field is empty: the row of the input below has one
  value for two headers, and the error is the one of the header check, which comes
  first.
\<close>

theorem parseCSV_row_width_counterexample:
  "split_lines (trim (lit ''a,\<newline>1'')) = [lit ''a,'', lit ''1'']
   \<and> map trim (split_on comma (lit ''a,'')) = [lit ''a'', []]
   \<and> map trim (split_on comma (lit ''1'')) = [lit ''1'']
   \<and> parseCSV (lit ''a,\<newline>1'') = Inl (lit ''CSV headers cannot be empty'')
   \<and> parseCSV (lit ''a,\<newline>1'')
       \<noteq> Inl (lit ''Row 2 has 1 values but should have 2 (matching headers)'')"
proof -
  have lines: "split_lines (trim (lit ''a,\<newline>1'')) = [lit ''a,'', lit ''1'']"
    by (simp add: lit_def trim_def is_space_def)
  have headers: "map trim (split_on comma (lit ''a,'')) = [lit ''a'', []]"
    by (simp add: lit_def trim_def is_space_def)
  have row: "map trim (split_on comma (lit ''1'')) = [lit ''1'']"
    by (simp add: lit_def trim_def is_space_def)
  have thrown: "parseCSV (lit ''a,\<newline>1'') = Inl (lit ''CSV headers cannot be empty'')"
    unfolding parseCSV_def lines Let_def by (simp add: headers)
  have "lit ''CSV headers cannot be empty''
          \<noteq> lit ''Row 2 has 1 values but should have 2 (matching headers)''"
    by (simp add: lit_def)
  with lines headers row thrown show ?thesis
    by simp
qed

text \<open>
  C3, amended: for an input with a header line of non-empty fields and \<open>m \<ge> 1\<close> data rows
  that all have as many values as there are headers, \<^verbatim>\<open>parseCSV\<close> returns \<open>m\<close> records. When
  no header field is \<^verbatim>\<open>__proto__\<close>, the keys of each record are exactly the header fields.
  When moreover the header fields, each taken once at its first occurrence, are in the
  order of the keys of an object (an array index follows only a smaller array index),
  each record lists its keys in header order; and when the header fields are also
  distinct, each record is the list of the headers, each with the trimmed value of its
  column.
\<close>

theorem parseCSV_valid:
  assumes "split_lines (trim csv) = header_line # rows"
    and "rows \<noteq> []"
    and "headers = map trim (split_on comma header_line)"
    and "\<forall>h\<in>set headers. h \<noteq> []"
    and "\<forall>row\<in>set rows. length (split_on comma row) = length headers"
  shows "\<exists>records. parseCSV csv = Inr records \<and> length records = length rows
      \<and> (lit ''__proto__'' \<notin> set headers \<longrightarrow> (\<forall>r\<in>set records. fst ` set r = set headers))
      \<and> (lit ''__proto__'' \<notin> set headers \<and> keys_in_order (Set_from headers)
           \<longrightarrow> (\<forall>r\<in>set records. map fst r = Set_from headers))
      \<and> (distinct headers \<and> lit ''__proto__'' \<notin> set headers \<and> keys_in_order headers
           \<longrightarrow> records = map (\<lambda>row. zip headers (map trim (split_on comma row))) rows)"
proof -
  let ?records = "map (\<lambda>row. make_record headers (map trim (split_on comma row))) rows"
  from assms(1,2,3,4) have "parseCSV csv = parse_rows headers 0 rows"
    by (simp add: parseCSV_rows)
  with assms(5) have parsed: "parseCSV csv = Inr ?records"
    by (simp add: parse_rows_ok)
  have keys: "\<forall>r\<in>set ?records. fst ` set r = set headers" if "lit ''__proto__'' \<notin> set headers"
    using that by (auto simp: make_record_keys)
  have listed: "\<forall>r\<in>set ?records. map fst r = Set_from headers"
    if "lit ''__proto__'' \<notin> set headers \<and> keys_in_order (Set_from headers)"
    using that by (auto simp: make_record_key_list)
  have order: "?records = map (\<lambda>row. zip headers (map trim (split_on comma row))) rows"
    if "distinct headers \<and> lit ''__proto__'' \<notin> set headers \<and> keys_in_order headers"
    using that assms(5) by (simp add: make_record_zip)
  from parsed keys listed order show ?thesis
    by (intro exI [of _ ?records]) simp
qed

theorem parseCSV_valid_witness:
  "parseCSV (lit ''2019, 2020,name\<newline>36,40,Ada\<newline>41 , 45,Bob\<newline>'')
     = Inr [[(lit ''2019'', lit ''36''), (lit ''2020'', lit ''40''), (lit ''name'', lit ''Ada'')],
            [(lit ''2019'', lit ''41''), (lit ''2020'', lit ''45''), (lit ''name'', lit ''Bob'')]]"
proof -
  let ?csv = "lit ''2019, 2020,name\<newline>36,40,Ada\<newline>41 , 45,Bob\<newline>''"
  let ?rows = "[lit ''36,40,Ada'', lit ''41 , 45,Bob'']"
  let ?headers = "[lit ''2019'', lit ''2020'', lit ''name'']"
  have lines: "split_lines (trim ?csv) = lit ''2019, 2020,name'' # ?rows"
    by (simp add: lit_def trim_def is_space_def)
  have rows: "?rows \<noteq> []"
    by simp
  have headers: "?headers = map trim (split_on comma (lit ''2019, 2020,name''))"
    by (simp add: lit_def trim_def is_space_def)
  have filled: "\<forall>h\<in>set ?headers. h \<noteq> []"
    by (simp add: lit_def)
  have width: "\<forall>row\<in>set ?rows. length (split_on comma row) = length ?headers"
    by (simp add: lit_def)
  have indices: "array_index (lit ''2019'') = Some 2019" "array_index (lit ''2020'') = Some 2020"
    "array_index (lit ''name'') = None"
    by (simp_all add: lit_def array_index_def is_digit_def digits_value_def)
  have ordered: "keys_in_order ?headers"
    by (simp add: indices)
  have plain: "distinct ?headers \<and> lit ''__proto__'' \<notin> set ?headers \<and> keys_in_order ?headers"
    using ordered by (simp add: lit_def)
  have zipped: "map (\<lambda>row. zip ?headers (map trim (split_on comma row))) ?rows
      = [[(lit ''2019'', lit ''36''), (lit ''2020'', lit ''40''), (lit ''name'', lit ''Ada'')],
         [(lit ''2019'', lit ''41''), (lit ''2020'', lit ''45''), (lit ''name'', lit ''Bob'')]]"
    by (simp add: lit_def trim_def is_space_def)
  from parseCSV_valid [OF lines rows headers filled width] plain
  have "parseCSV ?csv = Inr (map (\<lambda>row. zip ?headers (map trim (split_on comma row))) ?rows)"
    by blast
  with zipped show ?thesis
    by simp
qed

text \<open>
  C3 as stated fails for array indices that the header does not list in ascending
  order: an object lists such keys first, smallest first, so the header \<^verbatim>\<open>2,1\<close> gives
  records with the keys 1, 2.
\<close>

theorem parseCSV_valid_counterexample:
  "split_lines (trim (lit ''2,1\<newline>x,y'')) = [lit ''2,1'', lit ''x,y'']
   \<and> map trim (split_on comma (lit ''2,1'')) = [lit ''2'', lit ''1'']
   \<and> map trim (split_on comma (lit ''x,y'')) = [lit ''x'', lit ''y'']
   \<and> parseCSV (lit ''2,1\<newline>x,y'') = Inr [[(lit ''1'', lit ''y''), (lit ''2'', lit ''x'')]]
   \<and> map fst [(lit ''1'', lit ''y''), (lit ''2'', lit ''x'')] \<noteq> [lit ''2'', lit ''1'']"
proof -
  have lines: "split_lines (trim (lit ''2,1\<newline>x,y'')) = lit ''2,1'' # [lit ''x,y'']"
    by (simp add: lit_def trim_def is_space_def)
  have headers: "map trim (split_on comma (lit ''2,1'')) = [lit ''2'', lit ''1'']"
    by (simp add: lit_def trim_def is_space_def)
  have row: "map trim (split_on comma (lit ''x,y'')) = [lit ''x'', lit ''y'']"
    by (simp add: lit_def trim_def is_space_def)
  have filled: "\<forall>h\<in>set (map trim (split_on comma (lit ''2,1''))). h \<noteq> []"
    unfolding headers by (simp add: lit_def)
  have built: "make_record [lit ''2'', lit ''1''] [lit ''x'', lit ''y'']
                 = [(lit ''1'', lit ''y''), (lit ''2'', lit ''x'')]"
    by (simp add: make_record_def obj_set_def value_or_empty_def array_index_def
        digits_value_def is_digit_def lit_def upt_rec)
  have "parseCSV (lit ''2,1\<newline>x,y'')
          = parse_rows (map trim (split_on comma (lit ''2,1''))) 0 [lit ''x,y'']"
    using lines _ filled by (rule parseCSV_rows) simp
  then have parsed: "parseCSV (lit ''2,1\<newline>x,y'')
      = Inr [[(lit ''1'', lit ''y''), (lit ''2'', lit ''x'')]]"
    by (simp add: headers row built Let_def)
  have "map fst [(lit ''1'', lit ''y''), (lit ''2'', lit ''x'')] \<noteq> [lit ''2'', lit ''1'']"
    by (simp add: lit_def)
  with lines headers row parsed show ?thesis
    by simp
qed

section \<open>Properties of \<^verbatim>\<open>parseJSON\<close>\<close>

lemma sample_parse:
  "JSON_parse (sample_runtime sample_table) (lit ''{\"a\":1}'') = Inr (JObject [(lit ''a'', JNumber 1)])"
  "JSON_parse (sample_runtime sample_table) (lit ''[]'') = Inr (JArray [])"
  "JSON_parse (sample_runtime sample_table) (lit ''[{\"a\":1},null]'')
     = Inr (JArray [JObject [(lit ''a'', JNumber 1)], JNull])"
  "JSON_parse (sample_runtime sample_table) (lit ''[{\"a\":1}]'')
     = Inr (JArray [JObject [(lit ''a'', JNumber 1)]])"
  "JSON_parse (sample_runtime sample_table) (lit ''[[1,2]]'')
     = Inr (JArray [JArray [JNumber 1, JNumber 2]])"
  by (simp_all add: sample_runtime_def sample_table_def lit_def)

text \<open>
  C6: when \<^verbatim>\<open>JSON.parse\<close> succeeds, \<^verbatim>\<open>parseJSON\<close> throws "Input must be an array of objects"
  if the value is not an array, "JSON array cannot be empty" if it is the empty array, and
  "All items in the array must be objects" if an element is null, a boolean, a number or
  a string; for a non-empty array whose elements are all objects or arrays it returns
  the elements.
\<close>

theorem parseJSON_validation:
  assumes "JSON_parse rt json = Inr data"
  shows "(\<not> isArray data \<longrightarrow> parseJSON rt json = Inl (lit ''Input must be an array of objects''))
    \<and> (data = JArray [] \<longrightarrow> parseJSON rt json = Inl (lit ''JSON array cannot be empty''))
    \<and> (data = JArray items \<and> item \<in> set items
           \<and> (item = JNull \<or> (\<exists>b. item = JBool b) \<or> (\<exists>n. item = JNumber n) \<or> (\<exists>s. item = JString s))
         \<longrightarrow> parseJSON rt json = Inl (lit ''All items in the array must be objects''))
    \<and> (data = JArray items \<and> items \<noteq> []
           \<and> (\<forall>item\<in>set items. (\<exists>kvs. item = JObject kvs) \<or> (\<exists>xs. item = JArray xs))
         \<longrightarrow> parseJSON rt json = Inr items)"
proof (intro conjI impI)
  assume "\<not> isArray data"
  with assms show "parseJSON rt json = Inl (lit ''Input must be an array of objects'')"
    by (simp add: parseJSON_def)
next
  assume "data = JArray []"
  with assms show "parseJSON rt json = Inl (lit ''JSON array cannot be empty'')"
    by (simp add: parseJSON_def)
next
  assume h: "data = JArray items \<and> item \<in> set items
    \<and> (item = JNull \<or> (\<exists>b. item = JBool b) \<or> (\<exists>n. item = JNumber n) \<or> (\<exists>s. item = JString s))"
  then have "\<not> (typeof item = ''object'' \<and> item \<noteq> JNull)"
    by auto
  with h have "\<not> list_all (\<lambda>item. typeof item = ''object'' \<and> item \<noteq> JNull) items"
    by (auto simp: list_all_iff)
  moreover from h have "items \<noteq> []" by auto
  ultimately show "parseJSON rt json = Inl (lit ''All items in the array must be objects'')"
    using assms h by (simp add: parseJSON_def)
next
  assume h: "data = JArray items \<and> items \<noteq> []
    \<and> (\<forall>item\<in>set items. (\<exists>kvs. item = JObject kvs) \<or> (\<exists>xs. item = JArray xs))"
  then have "list_all (\<lambda>item. typeof item = ''object'' \<and> item \<noteq> JNull) items"
    by (auto simp: list_all_iff)
  then show "parseJSON rt json = Inr items"
    using assms h by (simp add: parseJSON_def)
qed

theorem parseJSON_validation_witness:
  "parseJSON (sample_runtime sample_table) (lit ''{\"a\":1}'')
     = Inl (lit ''Input must be an array of objects'')
   \<and> parseJSON (sample_runtime sample_table) (lit ''[]'')
     = Inl (lit ''JSON array cannot be empty'')
   \<and> parseJSON (sample_runtime sample_table) (lit ''[{\"a\":1},null]'')
     = Inl (lit ''All items in the array must be objects'')
   \<and> parseJSON (sample_runtime sample_table) (lit ''[{\"a\":1}]'')
     = Inr [JObject [(lit ''a'', JNumber 1)]]"
proof (intro conjI)
  show "parseJSON (sample_runtime sample_table) (lit ''{\"a\":1}'')
     = Inl (lit ''Input must be an array of objects'')"
    using parseJSON_validation [OF sample_parse(1)] by simp
  show "parseJSON (sample_runtime sample_table) (lit ''[]'')
     = Inl (lit ''JSON array cannot be empty'')"
    using parseJSON_validation [OF sample_parse(2)] by simp
  show "parseJSON (sample_runtime sample_table) (lit ''[{\"a\":1},null]'')
     = Inl (lit ''All items in the array must be objects'')"
    using parseJSON_validation [OF sample_parse(3),
        where items = "[JObject [(lit ''a'', JNumber 1)], JNull]" and item = JNull]
    by simp
  show "parseJSON (sample_runtime sample_table) (lit ''[{\"a\":1}]'')
     = Inr [JObject [(lit ''a'', JNumber 1)]]"
    using parseJSON_validation [OF sample_parse(4),
        where items = "[JObject [(lit ''a'', JNumber 1)]]"]
    by simp
qed

text \<open>
  C10: a non-empty array whose elements are all arrays passes \<^verbatim>\<open>parseJSON\<close>, which returns
  its elements unchanged: \<^verbatim>\<open>typeof\<close> of an array is \<^verbatim>\<open>'object'\<close>.
\<close>

theorem parseJSON_accepts_arrays:
  assumes "JSON_parse rt json = Inr (JArray items)"
    and "items \<noteq> []"
    and "list_all isArray items"
  shows "parseJSON rt json = Inr items"
proof -
  have "typeof item = ''object'' \<and> item \<noteq> JNull" if "isArray item" for item :: "'a json"
    using that by (cases item) simp_all
  with assms(3) have "list_all (\<lambda>item. typeof item = ''object'' \<and> item \<noteq> JNull) items"
    by (simp add: list_all_iff)
  with assms(1,2) show ?thesis
    by (simp add: parseJSON_def)
qed

theorem parseJSON_accepts_arrays_witness:
  "JSON_parse (sample_runtime sample_table) (lit ''[[1,2]]'')
     = Inr (JArray [JArray [JNumber 1, JNumber 2]])
   \<and> parseJSON (sample_runtime sample_table) (lit ''[[1,2]]'') = Inr [JArray [JNumber 1, JNumber 2]]"
  using sample_parse(5) parseJSON_accepts_arrays [OF sample_parse(5)] by simp

section \<open>Properties of the CSV serializer\<close>

lemma sample_number: "ToString (sample_runtime table) (JNumber n) = Inr (decimal n)"
  by (simp add: sample_runtime_def sample_String_def)

text \<open>
  C7: for a value that is present and not null (for a missing or null value the line
  before has returned the empty field), the serializer first calls \<^verbatim>\<open>String(value)\<close>, and
  throws what that call throws; then it looks at the string: if it contains a comma, a
  double quote or a line feed, the field is the string with every double quote doubled,
  between double quotes; otherwise it is the string itself.
\<close>

theorem csv_field_escaping:
  assumes "get_property rt obj header = Value v"
    and "v \<noteq> JNull"
  shows "csv_field rt obj header =
     (case String_js rt v of
        Inl e \<Rightarrow> Inl e
      | Inr stringValue \<Rightarrow>
          Inr (if comma \<in> set stringValue \<or> dquote \<in> set stringValue \<or> LF \<in> set stringValue
               then [dquote]
                    @ concat (map (\<lambda>c. if c = dquote then [dquote, dquote] else [c]) stringValue)
                    @ [dquote]
               else stringValue))"
  using assms
  by (simp add: csv_field_def escape_def includes_js_def double_quotes_def split: sum.splits)

theorem csv_field_escaping_witness:
  "csv_field (sample_runtime sample_table)
     (JObject [(lit ''pair'', JArray [JNumber 1, JNumber 2]), (lit ''say'', JString (lit ''a \"b\" c''))])
     (lit ''pair'') = Inr (lit ''\"1,2\"'')
   \<and> csv_field (sample_runtime sample_table)
     (JObject [(lit ''pair'', JArray [JNumber 1, JNumber 2]), (lit ''say'', JString (lit ''a \"b\" c''))])
     (lit ''say'') = Inr (lit ''\"a \"\"b\"\" c\"'')
   \<and> csv_field (sample_runtime sample_table) (JObject [(lit ''n'', JNumber 12)]) (lit ''n'')
     = Inr (lit ''12'')
   \<and> csv_field (sample_runtime sample_table)
     (JObject [(lit ''bad'', JObject [(lit ''toString'', JNumber 1)])]) (lit ''bad'')
     = Inl (lit ''Cannot convert object to primitive value'')"
proof (intro conjI)
  let ?rt = "sample_runtime sample_table"
  let ?obj = "JObject [(lit ''pair'', JArray [JNumber 1, JNumber 2]),
                       (lit ''say'', JString (lit ''a \"b\" c''))]"
  have p: "get_property ?rt ?obj (lit ''pair'') = Value (JArray [JNumber 1, JNumber 2])"
    by (simp add: get_property_def lit_def)
  have ps: "String_js ?rt (JArray [JNumber 1, JNumber 2]) = Inr (lit ''1,2'')"
    by (simp add: sample_runtime_def sample_String_def lit_def)
  show "csv_field ?rt ?obj (lit ''pair'') = Inr (lit ''\"1,2\"'')"
    using csv_field_escaping [OF p, unfolded ps sum.case] by (simp add: lit_def)
  have s: "get_property ?rt ?obj (lit ''say'') = Value (JString (lit ''a \"b\" c''))"
    by (simp add: get_property_def lit_def)
  show "csv_field ?rt ?obj (lit ''say'') = Inr (lit ''\"a \"\"b\"\" c\"'')"
    using csv_field_escaping [OF s] by (simp add: lit_def)
  have n: "get_property ?rt (JObject [(lit ''n'', JNumber 12)]) (lit ''n'') = Value (JNumber 12)"
    by (simp add: get_property_def lit_def)
  have ns: "String_js ?rt (JNumber 12) = Inr (lit ''12'')"
    by (simp add: sample_runtime_def sample_String_def lit_def)
  show "csv_field ?rt (JObject [(lit ''n'', JNumber 12)]) (lit ''n'') = Inr (lit ''12'')"
    using csv_field_escaping [OF n, unfolded ns sum.case] by (simp add: lit_def)
  let ?bad = "JObject [(lit ''toString'', JNumber 1)] :: nat json"
  have b: "get_property ?rt (JObject [(lit ''bad'', ?bad)]) (lit ''bad'') = Value ?bad"
    by (simp add: get_property_def)
  have bs: "String_js ?rt ?bad = Inl (lit ''Cannot convert object to primitive value'')"
    by (simp add: sample_runtime_def sample_String_def)
  show "csv_field ?rt (JObject [(lit ''bad'', ?bad)]) (lit ''bad'')
          = Inl (lit ''Cannot convert object to primitive value'')"
    using csv_field_escaping [OF b, unfolded bs sum.case] by simp
qed

lemma csv_headers_Cons:
  "csv_headers (first # later)
     = Set_from (Object_keys first)
       @ filter (\<lambda>k. k \<notin> set (Object_keys first)) (csv_headers later)"
  by (simp add: csv_headers_def Set_from_append)

lemma map_throw_Inr:
  "map_throw f xs = Inr ys \<Longrightarrow> ys = map (\<lambda>x. projr (f x)) xs"
proof (induction xs arbitrary: ys)
  case Nil
  then show ?case by simp
next
  case (Cons x xs)
  then show ?case
    by (auto split: sum.splits)
qed

lemma map_throw_each:
  "map_throw f xs = Inr ys \<Longrightarrow> x \<in> set xs \<Longrightarrow> \<not> isl (f x)"
proof (induction xs arbitrary: ys)
  case Nil
  then show ?case by simp
next
  case (Cons a xs)
  then show ?case
    by (auto split: sum.splits)
qed

lemma map_throw_total:
  "\<forall>x\<in>set xs. \<not> isl (f x) \<Longrightarrow> map_throw f xs = Inr (map (\<lambda>x. projr (f x)) xs)"
proof (induction xs)
  case Nil
  then show ?case by simp
next
  case (Cons x xs)
  then show ?case
    by (cases "f x") simp_all
qed

lemma csv_row_projr:
  "\<forall>h\<in>set headers. \<not> isl (csv_field rt obj h) \<Longrightarrow>
   csv_row rt headers obj = Inr (join comma (map (\<lambda>h. projr (csv_field rt obj h)) headers))"
  by (simp add: csv_row_def map_throw_total)

lemma csv_row_Inr:
  "csv_row rt headers obj = Inr row \<Longrightarrow>
   row = join comma (map (\<lambda>h. projr (csv_field rt obj h)) headers)"
  by (auto simp: csv_row_def split: sum.splits dest: map_throw_Inr)

lemma serializeCSV_total:
  assumes "\<forall>obj\<in>set jsonData. \<forall>h\<in>set (csv_headers jsonData). \<not> isl (csv_field rt obj h)"
  shows "serializeCSV rt jsonData
     = Inr (join LF (join comma (csv_headers jsonData)
          # map (\<lambda>obj. join comma (map (\<lambda>h. projr (csv_field rt obj h)) (csv_headers jsonData)))
              jsonData))"
proof -
  have "map_throw (csv_row rt (csv_headers jsonData)) jsonData
          = Inr (map (\<lambda>obj. projr (csv_row rt (csv_headers jsonData) obj)) jsonData)"
    using assms by (intro map_throw_total) (simp add: csv_row_projr)
  moreover have "map (\<lambda>obj. projr (csv_row rt (csv_headers jsonData) obj)) jsonData
      = map (\<lambda>obj. join comma (map (\<lambda>h. projr (csv_field rt obj h)) (csv_headers jsonData))) jsonData"
    using assms by (intro map_cong) (simp_all add: csv_row_projr)
  ultimately show ?thesis
    by (simp add: serializeCSV_def Let_def)
qed

lemma serializeCSV_Inr:
  assumes "serializeCSV rt jsonData = Inr csv"
  shows "csv = join LF (join comma (csv_headers jsonData)
          # map (\<lambda>obj. join comma (map (\<lambda>h. projr (csv_field rt obj h)) (csv_headers jsonData)))
              jsonData)"
proof -
  from assms obtain rows where
    rows: "map_throw (csv_row rt (csv_headers jsonData)) jsonData = Inr rows"
    and csv: "csv = join LF (join comma (csv_headers jsonData) # rows)"
    by (auto simp: serializeCSV_def Let_def split: sum.splits)
  have each: "csv_row rt (csv_headers jsonData) obj
                = Inr (join comma (map (\<lambda>h. projr (csv_field rt obj h)) (csv_headers jsonData)))"
    if "obj \<in> set jsonData" for obj
  proof -
    have "\<not> isl (csv_row rt (csv_headers jsonData) obj)"
      using rows that by (rule map_throw_each)
    then obtain row where "csv_row rt (csv_headers jsonData) obj = Inr row"
      by (cases "csv_row rt (csv_headers jsonData) obj") simp_all
    then show ?thesis
      using csv_row_Inr by fastforce
  qed
  from map_throw_Inr [OF rows] have "rows = map (\<lambda>obj. projr (csv_row rt (csv_headers jsonData) obj)) jsonData" .
  also have "\<dots> = map (\<lambda>obj. join comma (map (\<lambda>h. projr (csv_field rt obj h)) (csv_headers jsonData))) jsonData"
    by (intro map_cong) (simp_all add: each)
  finally show ?thesis
    using csv by simp
qed

lemma csv_field_absent:
  "get_property rt obj header = Undefined \<or> get_property rt obj header = Value JNull \<Longrightarrow>
   csv_field rt obj header = Inr []"
  by (auto simp: csv_field_def)

text \<open>
  What holds of C8: the header list of the serializer is the union of the keys of the
  records in the order of their first occurrence: the keys of the first one (as they
  are, when they are distinct) and then, from the header list of the later ones, the keys
  that the first one does not have; it has no duplicates. Every text the serializer
  returns is the header list joined by commas, followed by one line per object, and the
  serializer returns a text whenever no \<^verbatim>\<open>String(value)\<close> throws. A header for which
  \<^verbatim>\<open>obj[header]\<close> is \<^verbatim>\<open>undefined\<close> (a key that the object neither has nor inherits) or \<^verbatim>\<open>null\<close>
  gives the empty field. In particular \<^verbatim>\<open>[{a:1,b:2},{a:3,c:4}]\<close> gives the header \<^verbatim>\<open>a,b,c\<close>,
  then \<^verbatim>\<open>1,2,\<close> and \<^verbatim>\<open>3,,4\<close>.
\<close>

theorem serializeCSV_union_header:
  "csv_headers (first # later)
      = Set_from (Object_keys first)
        @ filter (\<lambda>k. k \<notin> set (Object_keys first)) (csv_headers later)
   \<and> (distinct (Object_keys first) \<longrightarrow> Set_from (Object_keys first) = Object_keys first)
   \<and> distinct (csv_headers jsonData)
   \<and> set (csv_headers jsonData) = (\<Union>obj\<in>set jsonData. set (Object_keys obj))
   \<and> (serializeCSV rt jsonData = Inr csv \<longrightarrow>
        csv = join LF (join comma (csv_headers jsonData)
                # map (\<lambda>obj. join comma (map (\<lambda>h. projr (csv_field rt obj h))
                                            (csv_headers jsonData))) jsonData))
   \<and> ((\<forall>obj\<in>set jsonData. \<forall>h\<in>set (csv_headers jsonData). \<not> isl (csv_field rt obj h))
        \<longrightarrow> \<not> isl (serializeCSV rt jsonData))
   \<and> (get_property rt obj header = Undefined \<or> get_property rt obj header = Value JNull
        \<longrightarrow> csv_field rt obj header = Inr [])
   \<and> (ToString rt (JNumber n1) = Inr (lit ''1'') \<and> ToString rt (JNumber n2) = Inr (lit ''2'')
        \<and> ToString rt (JNumber n3) = Inr (lit ''3'') \<and> ToString rt (JNumber n4) = Inr (lit ''4'')
        \<and> builtin_property rt (JObject [(lit ''a'', JNumber n1), (lit ''b'', JNumber n2)]) (lit ''c'')
            = None
        \<and> builtin_property rt (JObject [(lit ''a'', JNumber n3), (lit ''c'', JNumber n4)]) (lit ''b'')
            = None
        \<longrightarrow> serializeCSV rt [JObject [(lit ''a'', JNumber n1), (lit ''b'', JNumber n2)],
                             JObject [(lit ''a'', JNumber n3), (lit ''c'', JNumber n4)]]
            = Inr (lit ''a,b,c\<newline>1,2,\<newline>3,,4''))"
proof (intro conjI impI)
  show "csv_headers (first # later)
      = Set_from (Object_keys first)
        @ filter (\<lambda>k. k \<notin> set (Object_keys first)) (csv_headers later)"
    by (rule csv_headers_Cons)
  show "Set_from (Object_keys first) = Object_keys first" if "distinct (Object_keys first)"
    using that by (rule Set_from_id)
  show "distinct (csv_headers jsonData)"
    by (simp add: csv_headers_def Set_from_distinct)
  show "set (csv_headers jsonData) = (\<Union>obj\<in>set jsonData. set (Object_keys obj))"
    by (simp add: csv_headers_def Set_from_set)
  show "csv = join LF (join comma (csv_headers jsonData)
                # map (\<lambda>obj. join comma (map (\<lambda>h. projr (csv_field rt obj h))
                                            (csv_headers jsonData))) jsonData)"
    if "serializeCSV rt jsonData = Inr csv"
    using that by (rule serializeCSV_Inr)
  show "\<not> isl (serializeCSV rt jsonData)"
    if "\<forall>obj\<in>set jsonData. \<forall>h\<in>set (csv_headers jsonData). \<not> isl (csv_field rt obj h)"
    using serializeCSV_total [OF that] by simp
  show "csv_field rt obj header = Inr []"
    if "get_property rt obj header = Undefined \<or> get_property rt obj header = Value JNull"
    using that by (rule csv_field_absent)
next
  let ?r1 = "JObject [(lit ''a'', JNumber n1), (lit ''b'', JNumber n2)]"
  let ?r2 = "JObject [(lit ''a'', JNumber n3), (lit ''c'', JNumber n4)]"
  assume rt: "ToString rt (JNumber n1) = Inr (lit ''1'') \<and> ToString rt (JNumber n2) = Inr (lit ''2'')
        \<and> ToString rt (JNumber n3) = Inr (lit ''3'') \<and> ToString rt (JNumber n4) = Inr (lit ''4'')
        \<and> builtin_property rt ?r1 (lit ''c'') = None
        \<and> builtin_property rt ?r2 (lit ''b'') = None"
  have headers: "csv_headers [?r1, ?r2] = [lit ''a'', lit ''b'', lit ''c'']"
    by (simp add: csv_headers_def Set_from_def lit_def)
  have row1: "csv_row rt [lit ''a'', lit ''b'', lit ''c''] ?r1 = Inr (lit ''1,2,'')"
    using rt unfolding csv_row_def csv_field_def get_property_def
    by (simp add: escape_def includes_js_def) (simp add: lit_def)
  have row2: "csv_row rt [lit ''a'', lit ''b'', lit ''c''] ?r2 = Inr (lit ''3,,4'')"
    using rt unfolding csv_row_def csv_field_def get_property_def
    by (simp add: escape_def includes_js_def) (simp add: lit_def)
  show "serializeCSV rt [?r1, ?r2] = Inr (lit ''a,b,c\<newline>1,2,\<newline>3,,4'')"
    unfolding serializeCSV_def headers Let_def
    by (simp add: row1 row2) (simp add: lit_def)
qed

theorem serializeCSV_union_header_witness:
  "serializeCSV (sample_runtime sample_table)
     [JObject [(lit ''a'', JNumber 1), (lit ''b'', JNumber 2)],
      JObject [(lit ''a'', JNumber 3), (lit ''c'', JNumber 4)]]
     = Inr (lit ''a,b,c\<newline>1,2,\<newline>3,,4'')
   \<and> csv_headers [JObject [(lit ''a'', JNumber 1), (lit ''b'', JNumber 2)],
                   JObject [(lit ''a'', JNumber 3), (lit ''c'', JNumber (4::nat))]]
     = [lit ''a'', lit ''b'', lit ''c'']
   \<and> csv_field (sample_runtime sample_table)
        (JObject [(lit ''a'', JNumber 3), (lit ''c'', JNumber 4)]) (lit ''b'') = Inr []"
proof (intro conjI)
  let ?rt = "sample_runtime sample_table"
  let ?r1 = "JObject [(lit ''a'', JNumber 1), (lit ''b'', JNumber (2::nat))]"
  let ?r2 = "JObject [(lit ''a'', JNumber 3), (lit ''c'', JNumber (4::nat))]"
  have rendering: "ToString ?rt (JNumber 1) = Inr (lit ''1'') \<and> ToString ?rt (JNumber 2) = Inr (lit ''2'')
        \<and> ToString ?rt (JNumber 3) = Inr (lit ''3'') \<and> ToString ?rt (JNumber 4) = Inr (lit ''4'')
        \<and> builtin_property ?rt ?r1 (lit ''c'') = None
        \<and> builtin_property ?rt ?r2 (lit ''b'') = None"
    by (simp add: sample_runtime_def sample_String_def sample_builtin_def lit_def)
  note example = serializeCSV_union_header
    [where rt = ?rt and ?n1.0 = 1 and ?n2.0 = 2 and ?n3.0 = 3 and ?n4.0 = 4,
      THEN conjunct2, THEN conjunct2, THEN conjunct2, THEN conjunct2, THEN conjunct2,
      THEN conjunct2, THEN conjunct2]
  from example rendering
  show "serializeCSV ?rt [?r1, ?r2] = Inr (lit ''a,b,c\<newline>1,2,\<newline>3,,4'')"
    by (rule mp)
  have later: "csv_headers [?r2] = [lit ''a'', lit ''c'']"
    by (simp add: csv_headers_def Set_from_def lit_def)
  have own: "distinct (Object_keys ?r1)"
    by (simp add: lit_def)
  note union = serializeCSV_union_header [where first = ?r1 and later = "[?r2]"]
  from union [THEN conjunct2, THEN conjunct1] own
  have "Set_from (Object_keys ?r1) = Object_keys ?r1"
    by (rule mp)
  with union [THEN conjunct1]
  have "csv_headers [?r1, ?r2]
          = Object_keys ?r1 @ filter (\<lambda>k. k \<notin> set (Object_keys ?r1)) (csv_headers [?r2])"
    by simp
  then show "csv_headers [?r1, ?r2] = [lit ''a'', lit ''b'', lit ''c'']"
    unfolding later by (simp add: lit_def)
  have absent: "get_property ?rt ?r2 (lit ''b'') = Undefined
                \<or> get_property ?rt ?r2 (lit ''b'') = Value JNull"
    by (simp add: get_property_def sample_runtime_def sample_builtin_def lit_def)
  from serializeCSV_union_header [where rt = ?rt and obj = ?r2 and header = "lit ''b''",
      THEN conjunct2, THEN conjunct2, THEN conjunct2, THEN conjunct2, THEN conjunct2,
      THEN conjunct2, THEN conjunct1] absent
  show "csv_field ?rt ?r2 (lit ''b'') = Inr []"
    by (rule mp)
qed

text \<open>
  C8: a header that a record lacks is looked up by \<^verbatim>\<open>obj[header]\<close>, which also finds the
  properties that the object inherits. With the records \<^verbatim>\<open>[{"toString":"x"},{"a":"y"}]\<close> the
  second one has no key \<^verbatim>\<open>toString\<close>, and its row shows the text of the inherited function,
  not the empty field.
\<close>

theorem serializeCSV_inherited_property:
  "own_property (JObject [(lit ''a'', JString (lit ''y''))] :: nat json) (lit ''toString'') = None
   \<and> csv_field (sample_runtime sample_table) (JObject [(lit ''a'', JString (lit ''y''))])
        (lit ''toString'') = Inr (lit ''function toString() { [native code] }'')
   \<and> serializeCSV (sample_runtime sample_table)
        [JObject [(lit ''toString'', JString (lit ''x''))], JObject [(lit ''a'', JString (lit ''y''))]]
      = Inr (lit ''toString,a\<newline>x,\<newline>function toString() { [native code] },y'')"
proof (intro conjI)
  let ?rt = "sample_runtime sample_table"
  let ?r1 = "JObject [(lit ''toString'', JString (lit ''x''))] :: nat json"
  let ?r2 = "JObject [(lit ''a'', JString (lit ''y''))] :: nat json"
  show absent: "own_property ?r2 (lit ''toString'') = None"
    by (simp add: lit_def)
  have found: "builtin_property ?rt ?r2 (lit ''toString'')
                 = Some (lit ''function toString() { [native code] }'')"
    by (simp add: sample_runtime_def sample_builtin_def lit_def)
  have plain: "escape (lit ''function toString() { [native code] }'')
                 = lit ''function toString() { [native code] }''"
    by (simp add: escape_def includes_js_def lit_def)
  show field: "csv_field ?rt ?r2 (lit ''toString'') = Inr (lit ''function toString() { [native code] }'')"
    unfolding csv_field_def get_property_def absent found
    by (simp add: plain)
  have headers: "csv_headers [?r1, ?r2] = [lit ''toString'', lit ''a'']"
    by (simp add: csv_headers_def Set_from_def lit_def)
  have none: "builtin_property ?rt ?r1 (lit ''a'') = None"
    by (simp add: sample_runtime_def sample_builtin_def lit_def)
  have own1: "own_property ?r1 (lit ''toString'') = Some (JString (lit ''x''))"
    "own_property ?r1 (lit ''a'') = None"
    by (simp_all add: lit_def)
  have own2: "own_property ?r2 (lit ''a'') = Some (JString (lit ''y''))"
    by simp
  have cells: "escape (lit ''x'') = lit ''x''" "escape (lit ''y'') = lit ''y''"
    by (simp_all add: escape_def includes_js_def lit_def)
  have f11: "csv_field ?rt ?r1 (lit ''toString'') = Inr (lit ''x'')"
    unfolding csv_field_def get_property_def own1 by (simp add: cells)
  have f12: "csv_field ?rt ?r1 (lit ''a'') = Inr []"
    unfolding csv_field_def get_property_def own1 none by simp
  have f22: "csv_field ?rt ?r2 (lit ''a'') = Inr (lit ''y'')"
    unfolding csv_field_def get_property_def own2 by (simp add: cells)
  have row1: "csv_row ?rt [lit ''toString'', lit ''a''] ?r1 = Inr (lit ''x,'')"
    by (simp add: csv_row_def f11 f12) (simp add: lit_def)
  have row2: "csv_row ?rt [lit ''toString'', lit ''a''] ?r2
                = Inr (lit ''function toString() { [native code] },y'')"
    by (simp add: csv_row_def field f22) (simp add: lit_def)
  show "serializeCSV ?rt [?r1, ?r2]
          = Inr (lit ''toString,a\<newline>x,\<newline>function toString() { [native code] },y'')"
    unfolding serializeCSV_def headers Let_def
    using row1 row2 by (simp add: lit_def)
qed

section \<open>From the serializer back through \<^verbatim>\<open>parseCSV\<close>\<close>

lemma parseCSV_join:
  assumes "keys \<noteq> []" and "distinct keys"
    and keys: "\<forall>k\<in>set keys. k \<noteq> [] \<and> trim k = k \<and> comma \<notin> set k \<and> LF \<notin> set k
                 \<and> k \<noteq> lit ''__proto__''"
    and ordered: "keys_in_order keys"
    and "rows \<noteq> []"
    and rows: "\<forall>cells\<in>set rows. length cells = length keys
                 \<and> (\<forall>s\<in>set cells. trim s = s \<and> comma \<notin> set s \<and> LF \<notin> set s)"
    and "last rows \<noteq> [[]]"
  shows "parseCSV (join LF (join comma keys # map (join comma) rows)) = Inr (map (zip keys) rows)"
proof -
  let ?hdr = "join comma keys"
  let ?lines = "map (join comma) rows"
  let ?text = "join LF (?hdr # ?lines)"
  obtain k ks where k: "keys = k # ks"
    using \<open>keys \<noteq> []\<close> by (cases keys) auto
  with keys have first: "k \<noteq> []" "\<not> is_space (hd k)"
    by (simp_all add: tidy_trim)
  with k have hdr: "?hdr \<noteq> []" "\<not> is_space (hd ?hdr)"
    by (simp_all add: join_Nil_iff join_hd)
  have line: "LF \<notin> set p \<and> (p = [] \<or> last p \<noteq> CR)" if "p \<in> set (?hdr # ?lines)" for p
  proof -
    from that obtain cells where "p = join comma cells"
      and "\<forall>s\<in>set cells. trim s = s \<and> LF \<notin> set s"
      using keys rows by auto
    with joined_row [of cells] space_CR show ?thesis
      by auto
  qed
  then have split: "split_lines ?text = ?hdr # ?lines"
    by (intro split_lines_join) simp_all
  have final: "last rows \<in> set rows"
    using \<open>rows \<noteq> []\<close> by simp
  with rows \<open>keys \<noteq> []\<close> have "last rows \<noteq> []"
    by fastforce
  with \<open>last rows \<noteq> [[]]\<close> have last_row: "join comma (last rows) \<noteq> []"
    by (simp add: join_Nil_iff)
  have "last (?hdr # ?lines) = join comma (last rows)"
    using \<open>rows \<noteq> []\<close> by (simp add: last_map)
  with last_row have "last ?text = last (join comma (last rows))"
    by (simp add: join_last)
  moreover have "\<not> is_space (last (join comma (last rows)))"
    using joined_row [of "last rows"] last_row rows final by auto
  moreover have "?text \<noteq> []" "hd ?text = hd ?hdr"
    using hdr(1) by (simp_all add: join_Nil_iff join_hd)
  ultimately have tidy: "trim ?text = ?text"
    using hdr(2) by (intro trim_tidy) simp_all
  have headers: "map trim (split_on comma ?hdr) = keys"
    using \<open>keys \<noteq> []\<close> keys by (simp add: split_on_join map_idI)
  have cells: "map trim (split_on comma (join comma cells)) = cells" if "cells \<in> set rows" for cells
  proof -
    from that rows \<open>keys \<noteq> []\<close> have "cells \<noteq> []"
      by auto
    with that rows show ?thesis
      by (simp add: split_on_join map_idI)
  qed
  have width: "\<forall>row\<in>set ?lines. length (split_on comma row) = length keys"
  proof
    fix row
    assume "row \<in> set ?lines"
    then obtain cells where c: "cells \<in> set rows" "row = join comma cells"
      by auto
    from cells [OF c(1)] have "length (map trim (split_on comma row)) = length cells"
      using c(2) by simp
    with c(1) rows show "length (split_on comma row) = length keys"
      by simp
  qed
  have "parseCSV ?text = parse_rows (map trim (split_on comma ?hdr)) 0 ?lines"
    using \<open>rows \<noteq> []\<close> keys by (intro parseCSV_rows) (simp_all add: tidy split headers)
  also have "\<dots> = Inr (map (\<lambda>row. make_record keys (map trim (split_on comma row))) ?lines)"
    unfolding headers using width by (rule parse_rows_ok)
  also have "map (\<lambda>row. make_record keys (map trim (split_on comma row))) ?lines
               = map (zip keys) rows"
  proof -
    from keys have "lit ''__proto__'' \<notin> set keys"
      by auto
    with \<open>distinct keys\<close> ordered rows show ?thesis
      by (simp add: cells make_record_zip)
  qed
  finally show ?thesis .
qed

lemma csv_field_own:
  assumes "distinct (map fst r)" and "(k, v) \<in> set r" and "v \<noteq> JNull"
    and "String_js rt v = Inr s"
    and "comma \<notin> set s" and "dquote \<notin> set s" and "LF \<notin> set s"
  shows "csv_field rt (JObject r) k = Inr s"
proof -
  from assms(1,2) have "map_of r k = Some v"
    by (rule map_of_is_SomeI)
  then have "get_property rt (JObject r) k = Value v"
    by (simp add: get_property_def)
  with assms(3-) show ?thesis
    by (simp add: csv_field_def escape_def includes_js_def)
qed

lemma csv_headers_same_keys:
  assumes "records \<noteq> []" and "\<forall>r\<in>set records. map fst r = keys" and "distinct keys"
  shows "csv_headers (map JObject records) = keys"
proof -
  obtain r rs where records: "records = r # rs"
    using assms(1) by (cases records) auto
  have "set (csv_headers (map JObject rs)) \<subseteq> set keys"
    using assms(2) records by (auto simp: csv_headers_def Set_from_set)
  then have "filter (\<lambda>k. k \<notin> set keys) (csv_headers (map JObject rs)) = []"
    by (auto simp: filter_empty_conv)
  moreover from assms(2) records have "Object_keys (JObject r) = keys"
    by simp
  ultimately show ?thesis
    using assms(3) by (simp add: records csv_headers_Cons Set_from_id)
qed

text \<open>
  C1, amended: take a non-empty list of objects that all have the same keys in the same
  order, at least one key, the keys being distinct and listed in the order of the keys
  of an object (as they are in every object: an array index follows only a smaller array
  index), non-empty, without surrounding white space, free of commas and line feeds, and
  none of them \<^verbatim>\<open>__proto__\<close>. Let every value be non-null and have a string \<^verbatim>\<open>String(value)\<close>
  without surrounding white space and free of commas, double quotes and line feeds, and
  let the last object not consist of a single empty field. Then the serializer returns a
  text, and \<^verbatim>\<open>parseCSV\<close> of that text returns the same objects, with the same keys in the
  same order, each value replaced by its string.
\<close>

theorem serialize_parse_roundtrip:
  fixes rt :: "'n runtime" and records :: "(jsstring \<times> 'n json) list list"
  assumes "records \<noteq> []"
    and same: "\<forall>r\<in>set records. map fst r = keys"
    and "keys \<noteq> []" and "distinct keys"
    and keys: "\<forall>k\<in>set keys. k \<noteq> [] \<and> trim k = k \<and> comma \<notin> set k \<and> LF \<notin> set k
                 \<and> k \<noteq> lit ''__proto__''"
    and ordered: "keys_in_order keys"
    and vals: "\<forall>r\<in>set records. \<forall>v\<in>snd ` set r. v \<noteq> JNull
                 \<and> (\<exists>s. String_js rt v = Inr s \<and> trim s = s
                        \<and> comma \<notin> set s \<and> dquote \<notin> set s \<and> LF \<notin> set s)"
    and final: "length keys = 1 \<longrightarrow> (\<forall>v\<in>snd ` set (last records). String_js rt v \<noteq> Inr [])"
  shows "\<exists>csv. serializeCSV rt (map JObject records) = Inr csv
     \<and> parseCSV csv = Inr (map (map (\<lambda>(k, v). (k, projr (String_js rt v)))) records)"
proof -
  let ?cells = "\<lambda>r. map (\<lambda>(k, v). projr (String_js rt v)) r"
  let ?jsonData = "map JObject records"
  have headers: "csv_headers ?jsonData = keys"
    using \<open>records \<noteq> []\<close> same \<open>distinct keys\<close> by (rule csv_headers_same_keys)
  have field: "csv_field rt (JObject r) k = Inr (projr (String_js rt v))"
    if "r \<in> set records" "(k, v) \<in> set r" for r k v
  proof -
    from that vals obtain s where "v \<noteq> JNull" "String_js rt v = Inr s"
      "comma \<notin> set s" "dquote \<notin> set s" "LF \<notin> set s"
      by force
    moreover from that(1) same \<open>distinct keys\<close> have "distinct (map fst r)"
      by simp
    ultimately show ?thesis
      using that(2) by (simp add: csv_field_own)
  qed
  have row: "map (\<lambda>h. projr (csv_field rt (JObject r) h)) keys = ?cells r"
    if "r \<in> set records" for r
  proof -
    from that same have "keys = map fst r"
      by simp
    then show ?thesis
      using field [OF that] by (auto simp: map_idI)
  qed
  have "\<forall>obj\<in>set ?jsonData. \<forall>h\<in>set (csv_headers ?jsonData). \<not> isl (csv_field rt obj h)"
  proof (intro ballI)
    fix obj h
    assume "obj \<in> set ?jsonData" "h \<in> set (csv_headers ?jsonData)"
    then obtain r where r: "r \<in> set records" "obj = JObject r" "h \<in> set (map fst r)"
      using headers same by auto
    then obtain v where "(h, v) \<in> set r"
      by auto
    with field [OF r(1)] r(2) show "\<not> isl (csv_field rt obj h)"
      by simp
  qed
  then have "serializeCSV rt ?jsonData
      = Inr (join LF (join comma keys
          # map (\<lambda>obj. join comma (map (\<lambda>h. projr (csv_field rt obj h)) keys)) ?jsonData))"
    using serializeCSV_total [of ?jsonData rt] unfolding headers by simp
  also have "map (\<lambda>obj. join comma (map (\<lambda>h. projr (csv_field rt obj h)) keys)) ?jsonData
      = map (join comma) (map ?cells records)"
    by (simp add: row)
  finally have written: "serializeCSV rt ?jsonData
      = Inr (join LF (join comma keys # map (join comma) (map ?cells records)))" .
  have clean: "\<forall>cells\<in>set (map ?cells records). length cells = length keys
      \<and> (\<forall>s\<in>set cells. trim s = s \<and> comma \<notin> set s \<and> LF \<notin> set s)"
  proof
    fix cells
    assume "cells \<in> set (map ?cells records)"
    then obtain r where r: "r \<in> set records" "cells = ?cells r"
      by auto
    from r(1) same have "length r = length keys"
      by (metis length_map)
    moreover have "trim s = s \<and> comma \<notin> set s \<and> LF \<notin> set s" if "s \<in> set cells" for s
    proof -
      from that r(2) obtain k v where "(k, v) \<in> set r" "s = projr (String_js rt v)"
        by auto
      with vals r(1) show ?thesis
        by force
    qed
    ultimately show "length cells = length keys
      \<and> (\<forall>s\<in>set cells. trim s = s \<and> comma \<notin> set s \<and> LF \<notin> set s)"
      using r(2) by simp
  qed
  have last_cells: "last (map ?cells records) \<noteq> [[]]"
  proof
    assume empty: "last (map ?cells records) = [[]]"
    with \<open>records \<noteq> []\<close> have one: "?cells (last records) = [[]]"
      by (simp add: last_map)
    from \<open>records \<noteq> []\<close> have in_records: "last records \<in> set records"
      by simp
    from one obtain k v where kv: "last records = [(k, v)]" "projr (String_js rt v) = []"
      by (cases "last records") auto
    with in_records same have "length keys = 1"
      by (metis length_map length_Cons list.size(3) One_nat_def)
    with final kv(1) have "String_js rt v \<noteq> Inr []"
      by simp
    moreover from vals in_records kv(1) obtain s where "String_js rt v = Inr s"
      by force
    ultimately show False
      using kv(2) by simp
  qed
  have "parseCSV (join LF (join comma keys # map (join comma) (map ?cells records)))
          = Inr (map (zip keys) (map ?cells records))"
    using \<open>keys \<noteq> []\<close> \<open>distinct keys\<close> keys ordered _ clean last_cells
    by (rule parseCSV_join) (simp add: \<open>records \<noteq> []\<close>)
  also have "map (zip keys) (map ?cells records)
               = map (map (\<lambda>(k, v). (k, projr (String_js rt v)))) records"
  proof -
    have "zip keys (?cells r) = map (\<lambda>(k, v). (k, projr (String_js rt v))) r"
      if "r \<in> set records" for r
    proof -
      from that same have "keys = map fst r"
        by simp
      then show ?thesis
        by (simp add: zip_map_map zip_same_conv_map case_prod_beta)
    qed
    then show ?thesis
      by simp
  qed
  finally show ?thesis
    using written by simp
qed

theorem serialize_parse_roundtrip_witness:
  "serializeCSV (sample_runtime sample_table)
     (map JObject [[(lit ''2019'', JString (lit ''Ada'')), (lit ''2020'', JNumber 36)],
                   [(lit ''2019'', JString (lit ''Bob'')), (lit ''2020'', JNumber 41)]])
     = Inr (lit ''2019,2020\<newline>Ada,36\<newline>Bob,41'')
   \<and> parseCSV (lit ''2019,2020\<newline>Ada,36\<newline>Bob,41'')
     = Inr [[(lit ''2019'', lit ''Ada''), (lit ''2020'', lit ''36'')],
            [(lit ''2019'', lit ''Bob''), (lit ''2020'', lit ''41'')]]"
proof -
  let ?rt = "sample_runtime sample_table"
  let ?records = "[[(lit ''2019'', JString (lit ''Ada'')), (lit ''2020'', JNumber 36)],
                   [(lit ''2019'', JString (lit ''Bob'')), (lit ''2020'', JNumber (41::nat))]]"
  let ?keys = "[lit ''2019'', lit ''2020'']"
  have some: "?records \<noteq> []"
    by simp
  have same: "\<forall>r\<in>set ?records. map fst r = ?keys"
    by simp
  have keys: "?keys \<noteq> []" "distinct ?keys"
    by (simp_all add: lit_def)
  have plain: "\<forall>k\<in>set ?keys. k \<noteq> [] \<and> trim k = k \<and> comma \<notin> set k \<and> LF \<notin> set k
                 \<and> k \<noteq> lit ''__proto__''"
    by (simp add: lit_def trim_def is_space_def)
  have indices: "array_index (lit ''2019'') = Some 2019" "array_index (lit ''2020'') = Some 2020"
    by (simp_all add: lit_def array_index_def is_digit_def digits_value_def)
  have ordered: "keys_in_order ?keys"
    by (simp add: indices)
  have vals: "\<forall>r\<in>set ?records. \<forall>v\<in>snd ` set r. v \<noteq> JNull
                 \<and> (\<exists>s. String_js ?rt v = Inr s \<and> trim s = s
                        \<and> comma \<notin> set s \<and> dquote \<notin> set s \<and> LF \<notin> set s)"
    by (simp add: sample_number) (simp add: lit_def trim_def is_space_def)
  have final: "length ?keys = 1 \<longrightarrow> (\<forall>v\<in>snd ` set (last ?records). String_js ?rt v \<noteq> Inr [])"
    by simp
  have headers: "csv_headers (map JObject ?records) = ?keys"
    by (simp add: csv_headers_def Set_from_def lit_def)
  have row1: "csv_row ?rt ?keys (JObject (?records ! 0)) = Inr (lit ''Ada,36'')"
    unfolding csv_row_def csv_field_def get_property_def
    by (simp add: sample_number escape_def includes_js_def) (simp add: lit_def)
  have row2: "csv_row ?rt ?keys (JObject (?records ! 1)) = Inr (lit ''Bob,41'')"
    unfolding csv_row_def csv_field_def get_property_def
    by (simp add: sample_number escape_def includes_js_def) (simp add: lit_def)
  have written: "serializeCSV ?rt (map JObject ?records) = Inr (lit ''2019,2020\<newline>Ada,36\<newline>Bob,41'')"
    unfolding serializeCSV_def headers Let_def
    using row1 row2 by (simp add: lit_def)
  from serialize_parse_roundtrip [OF some same keys plain ordered vals final] written
  have "parseCSV (lit ''2019,2020\<newline>Ada,36\<newline>Bob,41'')
          = Inr (map (map (\<lambda>(k, v). (k, projr (String_js ?rt v)))) ?records)"
    by auto
  also have "map (map (\<lambda>(k, v). (k, projr (String_js ?rt v)))) ?records
      = [[(lit ''2019'', lit ''Ada''), (lit ''2020'', lit ''36'')],
         [(lit ''2019'', lit ''Bob''), (lit ''2020'', lit ''41'')]]"
    by (simp add: sample_number) (simp add: lit_def)
  finally show ?thesis
    using written by simp
qed

text \<open>
  C1 as stated fails for a value with a leading space: it contains no comma, double quote
  or line feed, is written as it is, and comes back trimmed.
\<close>

theorem serialize_parse_roundtrip_counterexample:
  "serializeCSV (sample_runtime sample_table) [JObject [(lit ''a'', JString (lit '' b''))]]
     = Inr (lit ''a\<newline> b'')
   \<and> parseCSV (lit ''a\<newline> b'') = Inr [[(lit ''a'', lit ''b'')]]
   \<and> lit ''b'' \<noteq> lit '' b''"
proof (intro conjI)
  let ?rt = "sample_runtime sample_table"
  have headers: "csv_headers [JObject [(lit ''a'', JString (lit '' b''))]] = [lit ''a'']"
    by (simp add: csv_headers_def Set_from_def)
  have row: "csv_row ?rt [lit ''a''] (JObject [(lit ''a'', JString (lit '' b''))]) = Inr (lit '' b'')"
    unfolding csv_row_def csv_field_def get_property_def
    by (simp add: escape_def includes_js_def) (simp add: lit_def)
  show "serializeCSV ?rt [JObject [(lit ''a'', JString (lit '' b''))]] = Inr (lit ''a\<newline> b'')"
    unfolding serializeCSV_def headers Let_def
    using row by (simp add: lit_def)
  have lines: "split_lines (trim (lit ''a\<newline> b'')) = lit ''a'' # [lit '' b'']"
    by (simp add: lit_def trim_def is_space_def)
  have header: "map trim (split_on comma (lit ''a'')) = [lit ''a'']"
    by (simp add: lit_def trim_def is_space_def)
  have cell: "map trim (split_on comma (lit '' b'')) = [lit ''b'']"
    by (simp add: lit_def trim_def is_space_def)
  have built: "make_record [lit ''a''] [lit ''b''] = [(lit ''a'', lit ''b'')]"
    by (simp add: make_record_def obj_set_def value_or_empty_def array_index_def
        is_digit_def lit_def)
  have "parseCSV (lit ''a\<newline> b'') = parse_rows (map trim (split_on comma (lit ''a''))) 0 [lit '' b'']"
    using lines by (rule parseCSV_rows) (simp_all add: header, simp add: lit_def)
  then show "parseCSV (lit ''a\<newline> b'') = Inr [[(lit ''a'', lit ''b'')]]"
    by (simp add: header cell built Let_def)
  show "lit ''b'' \<noteq> lit '' b''"
    by (simp add: lit_def)
qed

section \<open>Properties of \<^verbatim>\<open>convertData\<close>\<close>

text \<open>
  C9: when the input is empty or made of white space only, \<^verbatim>\<open>convertData\<close> only sets the
  error "Please enter some data to convert" (without details), whatever the mode. The
  new state does not depend on the runtime, so neither \<^verbatim>\<open>JSON.parse\<close> nor any other built-in
  behind the parsers and the serializer has a part in it.
\<close>

theorem convertData_blank_input:
  assumes "list_all is_space (input_st s)"
  shows "convertData rt s =
     s\<lparr>error_st := Some \<lparr>message = lit ''Please enter some data to convert'', details = None\<rparr>\<rparr>"
  using trim_blank [OF assms] by (simp add: convertData_def)

theorem convertData_blank_input_witness:
  "convertData (sample_runtime sample_table)
     \<lparr>input_st = lit '' \<newline>  '', output_st = [], error_st = None, mode_st = csv2json,
      copied_st = False\<rparr>
   = \<lparr>input_st = lit '' \<newline>  '', output_st = [],
      error_st = Some \<lparr>message = lit ''Please enter some data to convert'', details = None\<rparr>,
      mode_st = csv2json, copied_st = False\<rparr>"
proof -
  have blank: "list_all is_space (input_st \<lparr>input_st = lit '' \<newline>  '', output_st = [],
      error_st = None, mode_st = csv2json, copied_st = False\<rparr>)"
    by (simp add: lit_def is_space_def)
  show ?thesis
    using convertData_blank_input [OF blank, of "sample_runtime sample_table"] by simp
qed

text \<open>
  C2: the early return of \<^verbatim>\<open>convertData\<close> on a blank input sets the error and leaves the
  output of an earlier conversion in place, while the \<^verbatim>\<open>catch\<close> block clears it. From the
  initial state: convert \<^verbatim>\<open>[{"a":1}]\<close> to CSV, empty the input area, convert again; the
  state then holds an error together with the output of the first conversion.
\<close>

theorem convertData_keeps_stale_output:
  "convertData (sample_runtime sample_table)
     (onChange []
        (convertData (sample_runtime sample_table)
           \<lparr>input_st = lit ''[{\"a\":1}]'', output_st = [], error_st = None,
            mode_st = json2csv, copied_st = False\<rparr>))
   = \<lparr>input_st = [], output_st = lit ''a\<newline>1'',
      error_st = Some \<lparr>message = lit ''Please enter some data to convert'', details = None\<rparr>,
      mode_st = json2csv, copied_st = False\<rparr>"
proof -
  let ?rt = "sample_runtime sample_table"
  let ?obj = "JObject [(lit ''a'', JNumber 1)] :: nat json"
  have filled: "trim (lit ''[{\"a\":1}]'') \<noteq> []"
    by (simp add: lit_def trim_def is_space_def)
  have parsed: "parseJSON ?rt (lit ''[{\"a\":1}]'') = Inr [?obj]"
    by (simp add: parseJSON_def sample_parse(4))
  have headers: "csv_headers [?obj] = [lit ''a'']"
    by (simp add: csv_headers_def Set_from_def)
  have field: "csv_field ?rt ?obj (lit ''a'') = Inr (lit ''1'')"
    unfolding csv_field_def get_property_def
    by (simp add: sample_number escape_def includes_js_def) (simp add: lit_def)
  have row: "csv_row ?rt [lit ''a''] ?obj = Inr (lit ''1'')"
    by (simp only: csv_row_def map_throw.simps field sum.case join.simps)
  have joined: "join LF [join comma [lit ''a''], lit ''1''] = lit ''a\<newline>1''"
    by (simp add: lit_def)
  have written: "serializeCSV ?rt [?obj] = Inr (lit ''a\<newline>1'')"
    unfolding serializeCSV_def headers Let_def
    by (simp only: map_throw.simps row sum.case joined)
  have first: "convertData ?rt
      \<lparr>input_st = lit ''[{\"a\":1}]'', output_st = [], error_st = None,
       mode_st = json2csv, copied_st = False\<rparr>
    = \<lparr>input_st = lit ''[{\"a\":1}]'', output_st = lit ''a\<newline>1'', error_st = None,
       mode_st = json2csv, copied_st = False\<rparr>"
    using filled
    by (simp add: convertData_def convert_def parsed written [unfolded One_nat_def] Let_def)
  have blank: "trim [] = []"
    by (simp add: trim_def)
  show ?thesis
    unfolding first by (simp add: onChange_def convertData_def blank)
qed

text \<open>
  On the other paths of \<^verbatim>\<open>convertData\<close>, those that reach the \<^verbatim>\<open>try\<close> block, an error comes
  with an empty output and a non-empty output comes without an error.
\<close>

lemma convertData_after_attempt:
  assumes "trim (input_st s) \<noteq> []"
  shows "(error_st (convertData rt s) \<noteq> None \<longrightarrow> output_st (convertData rt s) = [])
     \<and> (output_st (convertData rt s) \<noteq> [] \<longrightarrow> error_st (convertData rt s) = None)"
  using assms
  by (cases "convert rt (mode_st s) (input_st s)") (simp_all add: convertData_def Let_def)

lemma convertData_success_example:
  "convertData (sample_runtime sample_table)
     \<lparr>input_st = lit ''a\<newline>1'', output_st = [], error_st = None, mode_st = csv2json,
      copied_st = False\<rparr>
   = \<lparr>input_st = lit ''a\<newline>1'', output_st = lit ''[\<newline>  {\<newline>    \"a\": \"1\"\<newline>  }\<newline>]'',
      error_st = None, mode_st = csv2json, copied_st = False\<rparr>"
proof -
  have filled: "trim (lit ''a\<newline>1'') \<noteq> []"
    by (simp add: lit_def trim_def is_space_def)
  have lines: "split_lines (trim (lit ''a\<newline>1'')) = lit ''a'' # [lit ''1'']"
    by (simp add: lit_def trim_def is_space_def)
  have header: "map trim (split_on comma (lit ''a'')) = [lit ''a'']"
    by (simp add: lit_def trim_def is_space_def)
  have cell: "map trim (split_on comma (lit ''1'')) = [lit ''1'']"
    by (simp add: lit_def trim_def is_space_def)
  have built: "make_record [lit ''a''] [lit ''1''] = [(lit ''a'', lit ''1'')]"
    by (simp add: make_record_def obj_set_def value_or_empty_def array_index_def
        is_digit_def lit_def)
  have "parseCSV (lit ''a\<newline>1'') = parse_rows (map trim (split_on comma (lit ''a''))) 0 [lit ''1'']"
    using lines by (rule parseCSV_rows) (simp_all add: header, simp add: lit_def)
  then have parsed: "parseCSV (lit ''a\<newline>1'') = Inr [[(lit ''a'', lit ''1'')]]"
    by (simp add: header cell built Let_def)
  have printed: "JSON_stringify (sample_runtime sample_table) [[(lit ''a'', lit ''1'')]]
                   = lit ''[\<newline>  {\<newline>    \"a\": \"1\"\<newline>  }\<newline>]''"
    by (simp add: sample_runtime_def sample_stringify_def join_str_def lit_def)
  show ?thesis
    using filled by (simp add: convertData_def convert_def parsed printed)
qed

end
